theory Spec2Isabelle
  imports Main "HOL-Library.Sublist" "HOL-Library.Multiset"
begin

section \<open>JavaScript values, errors and strings\<close>

text \<open>
  Values that reach the program are JSON documents (asset descriptors, API bodies) or
  \<open>undefined\<close>. Numbers are kept as integers: the program only passes them through or
  compares a length against zero. A string stands for the JavaScript string in UTF-8, one
  \<open>char\<close> per byte.
\<close>

datatype jsval =
    JUndefined
  | JNull
  | JBool bool
  | JNum int
  | JStr string
  | JArr "jsval list"
  | JObj "(string \<times> jsval) list"

datatype js_error = TypeError string | URIError string | Error string

fun message :: "js_error \<Rightarrow> string" where
  "message (TypeError m) = m"
| "message (URIError m) = m"
| "message (Error m) = m"

text \<open>Truthiness, as tested by \<open>if (x)\<close>, \<open>!x\<close> and \<open>x && y\<close>.\<close>

fun truthy :: "jsval \<Rightarrow> bool" where
  "truthy JUndefined = False"
| "truthy JNull = False"
| "truthy (JBool b) = b"
| "truthy (JNum n) = (n \<noteq> 0)"
| "truthy (JStr s) = (s \<noteq> [])"
| "truthy (JArr xs) = True"
| "truthy (JObj kvs) = True"

text \<open>
  Property read \<open>v.k\<close>. Reading a property of \<open>undefined\<close> or \<open>null\<close> throws a
  TypeError; \<open>length\<close> is defined on arrays and strings; any other name is looked up among
  the own properties of an object and is \<open>undefined\<close> elsewhere. The program reads
  \<open>url\<close>, \<open>filename\<close>, \<open>type\<close>, \<open>items\<close>, \<open>cursor\<close> and \<open>length\<close>, none of which a
  prototype of a JSON value defines otherwise.
\<close>

fun get_prop :: "jsval \<Rightarrow> string \<Rightarrow> js_error + jsval" where
  "get_prop JUndefined k = Inl (TypeError (''Cannot read properties of undefined (reading '' @ k @ '')''))"
| "get_prop JNull k = Inl (TypeError (''Cannot read properties of null (reading '' @ k @ '')''))"
| "get_prop (JObj kvs) k = Inr (case map_of kvs k of None \<Rightarrow> JUndefined | Some v \<Rightarrow> v)"
| "get_prop (JArr xs) k = Inr (if k = ''length'' then JNum (int (length xs)) else JUndefined)"
| "get_prop (JStr s) k = Inr (if k = ''length'' then JNum (int (length s)) else JUndefined)"
| "get_prop (JBool b) k = Inr JUndefined"
| "get_prop (JNum n) k = Inr JUndefined"

text \<open>Decimal digits of a number, for template literals and string conversion.\<close>

definition digit_char :: "nat \<Rightarrow> char" where
  "digit_char d = ''0123456789'' ! d"

function show_nat :: "nat \<Rightarrow> string" where
  "show_nat n = (if n < 10 then [digit_char n] else show_nat (n div 10) @ [digit_char (n mod 10)])"
  by pat_completeness auto
termination
  by (relation "measure id") auto

declare show_nat.simps [simp del]

definition show_int :: "int \<Rightarrow> string" where
  "show_int i = (if i < 0 then CHR ''-'' # show_nat (nat (- i)) else show_nat (nat i))"

fun join_with :: "string \<Rightarrow> string list \<Rightarrow> string" where
  "join_with sep [] = []"
| "join_with sep [s] = s"
| "join_with sep (s # t # ss) = s @ sep @ join_with sep (t # ss)"

text \<open>\<open>String(v)\<close>, the conversion applied by template literals and by property keys.\<close>

fun js_to_string :: "jsval \<Rightarrow> string" where
  "js_to_string JUndefined = ''undefined''"
| "js_to_string JNull = ''null''"
| "js_to_string (JBool b) = (if b then ''true'' else ''false'')"
| "js_to_string (JNum n) = show_int n"
| "js_to_string (JStr s) = s"
| "js_to_string (JArr xs) =
     join_with '','' (map (\<lambda>x. case x of JUndefined \<Rightarrow> [] | JNull \<Rightarrow> [] | _ \<Rightarrow> js_to_string x) xs)"
| "js_to_string (JObj kvs) = ''[object Object]''"

text \<open>\<open>s.split(sep)\<close> for a separator of one character: never the empty array.\<close>

fun js_split :: "char \<Rightarrow> string \<Rightarrow> string list" where
  "js_split sep [] = [[]]"
| "js_split sep (c # cs) =
     (if c = sep then [] # js_split sep cs
      else (case js_split sep cs of [] \<Rightarrow> [[c]] | w # ws \<Rightarrow> (c # w) # ws))"

text \<open>
  The method call \<open>v.split(sep)\<close> on an arbitrary value: only a string has the method;
  on \<open>undefined\<close> and \<open>null\<close> the property read throws, on every other JSON value
  \<open>v.split\<close> is not a function.
\<close>

fun split_method :: "jsval \<Rightarrow> char \<Rightarrow> js_error + string list" where
  "split_method (JStr s) sep = Inr (js_split sep s)"
| "split_method JUndefined sep = Inl (TypeError ''Cannot read properties of undefined (reading split)'')"
| "split_method JNull sep = Inl (TypeError ''Cannot read properties of null (reading split)'')"
| "split_method v sep = Inl (TypeError ''split is not a function'')"

subsection \<open>decodeURIComponent\<close>

text \<open>
  The Decode operation of ECMAScript with an empty set of preserved escapes. Every
  \<open>%\<close> must be followed by two hexadecimal digits; an escaped byte below 128 is the
  character itself; a larger one must start a well-formed UTF-8 sequence whose other
  bytes are escaped too. Anything else throws URIError.
\<close>

definition hex_val :: "char \<Rightarrow> nat option" where
  "hex_val c =
     (let n = (of_char c :: nat) in
      if 48 \<le> n \<and> n \<le> 57 then Some (n - 48)
      else if 65 \<le> n \<and> n \<le> 70 then Some (n - 55)
      else if 97 \<le> n \<and> n \<le> 102 then Some (n - 87)
      else None)"

datatype uri_token = Lit char | Esc nat

fun uri_tokens :: "string \<Rightarrow> uri_token list option" where
  "uri_tokens [] = Some []"
| "uri_tokens (c # cs) =
     (if c = CHR ''%'' then
        (case cs of
           h1 # h2 # rest \<Rightarrow>
             (case (hex_val h1, hex_val h2) of
                (Some a, Some b) \<Rightarrow> map_option (Cons (Esc (16 * a + b))) (uri_tokens rest)
              | _ \<Rightarrow> None)
         | _ \<Rightarrow> None)
      else map_option (Cons (Lit c)) (uri_tokens cs))"

definition cont_byte :: "nat \<Rightarrow> nat \<Rightarrow> nat \<Rightarrow> bool" where
  "cont_byte lo hi b = (lo \<le> b \<and> b \<le> hi)"

text \<open>The second byte's range depends on the first, which excludes overlong forms,
  surrogates and code points above 10FFFF.\<close>

definition second_range :: "nat \<Rightarrow> nat \<times> nat" where
  "second_range b =
     (if b = 224 then (160, 191)
      else if b = 237 then (128, 159)
      else if b = 240 then (144, 191)
      else if b = 244 then (128, 143)
      else (128, 191))"

fun utf8_chars :: "uri_token list \<Rightarrow> string option" where
  "utf8_chars [] = Some []"
| "utf8_chars (Lit c # ts) = map_option (Cons c) (utf8_chars ts)"
| "utf8_chars (Esc b # ts) =
     (if b < 128 then map_option (Cons (char_of b)) (utf8_chars ts)
      else if 194 \<le> b \<and> b \<le> 223 then
        (case ts of
           Esc c1 # r \<Rightarrow>
             if cont_byte 128 191 c1
             then map_option (\<lambda>s. char_of b # char_of c1 # s) (utf8_chars r) else None
         | _ \<Rightarrow> None)
      else if 224 \<le> b \<and> b \<le> 239 then
        (case ts of
           Esc c1 # Esc c2 # r \<Rightarrow>
             if cont_byte (fst (second_range b)) (snd (second_range b)) c1 \<and> cont_byte 128 191 c2
             then map_option (\<lambda>s. char_of b # char_of c1 # char_of c2 # s) (utf8_chars r) else None
         | _ \<Rightarrow> None)
      else if 240 \<le> b \<and> b \<le> 244 then
        (case ts of
           Esc c1 # Esc c2 # Esc c3 # r \<Rightarrow>
             if cont_byte (fst (second_range b)) (snd (second_range b)) c1
                \<and> cont_byte 128 191 c2 \<and> cont_byte 128 191 c3
             then map_option (\<lambda>s. char_of b # char_of c1 # char_of c2 # char_of c3 # s) (utf8_chars r)
             else None
         | _ \<Rightarrow> None)
      else None)"

definition decodeURIComponent :: "string \<Rightarrow> js_error + string" where
  "decodeURIComponent s =
     (case uri_tokens s of
        None \<Rightarrow> Inl (URIError ''URI malformed'')
      | Some ts \<Rightarrow>
          (case utf8_chars ts of
             None \<Rightarrow> Inl (URIError ''URI malformed'')
           | Some r \<Rightarrow> Inr r))"

section \<open>Configuration, paths, effects\<close>

record config =
  repositoryName :: string
  accessToken :: string
  permanentToken :: string

text \<open>
  A path is kept as the list of arguments handed to \<open>path.join\<close>; the normalisation
  Node applies to the joined string is not modelled.
\<close>

type_synonym path = "string list"

definition path_join :: "path \<Rightarrow> string \<Rightarrow> path" where
  "path_join p s = p @ [s]"

text \<open>The private fields of a \<open>PrismicBackup\<close> object (the client and the logger carry
  no state of their own).\<close>

record PrismicBackup =
  config :: config
  failedAssets :: "jsval list"
  root :: path

definition ASSETS_API :: string where
  "ASSETS_API = ''https://asset-api.prismic.io/assets''"

definition CUSTOM_TYPES_API :: string where
  "CUSTOM_TYPES_API = ''https://customtypes.prismic.io/customtypes''"

definition SLICES_API :: string where
  "SLICES_API = ''https://customtypes.prismic.io/slices''"

definition createExportPath :: "config \<Rightarrow> string \<Rightarrow> path" where
  "createExportPath c p = [''./'', repositoryName c, p]"

definition new_PrismicBackup :: "config \<Rightarrow> PrismicBackup" where
  "new_PrismicBackup c = \<lparr>config = c, failedAssets = [], root = createExportPath c []\<rparr>"

text \<open>
  Every effect is recorded in a trace, tagged with the asynchronous task that performed
  it. A filesystem call is recorded with its outcome (\<open>None\<close>: it succeeded).
  \<open>Push a\<close> is \<open>this.#failedAssets.push(a)\<close>.
\<close>

datatype tid =
    TRepository | TDocuments | TDocType string | TTags | TCustomTypes | TSharedSlices
  | TAssetsList | TDownloadAssets | TDownload nat | TRun

datatype fs_op =
    EnsureDir path
  | WriteFile path string
  | OutputJson path jsval

datatype level = INFO | WARN | ERROR

datatype msg =
    FailedAssetsLogCreated nat path
  | FailedAssetsLogFailed string
  | NoRepository | RepositoryExported path | RepositoryFailed string
  | NoDocuments | DocumentsExported nat path | DocumentsByType nat path | DocumentsFailed string
  | NoTags | TagsExported nat path | TagsFailed string
  | CustomTypesExported jsval path | CustomTypesFailed string
  | NoSharedSlices | SharedSlicesExported jsval path | SharedSlicesFailed string
  | AssetsExported nat path | AssetsListFailed string
  | Downloaded jsval path | DownloadFailed jsval string
  | NoAssetsProvided | NoAssetsFound | DownloadedCount int nat | AssetsDownloadFailed string
  | BackupStarted | BackupCompleted

datatype event =
    Fetch string
  | AuthFetch string "(string \<times> string) list" "(string \<times> string) list"
  | Fs fs_op "js_error option"
  | Push jsval
  | Log level msg

type_synonym trace = "(tid \<times> event) list"

text \<open>An asynchronous computation: the effects it performs, in order, and how its
  promise settles (\<open>Inl\<close>: rejected).\<close>

type_synonym 'a async = "trace \<times> (js_error + 'a)"

record response =
  ok :: bool
  status :: nat
  statusText :: string
  json :: "js_error + jsval"
  arrayBuffer :: "js_error + string"

text \<open>
  The world outside the program: what each remote call and each filesystem call
  answers, and the order in which the scheduler resumes the tasks that wait in one
  \<open>Promise.all\<close>. Listing pages are numbered by request, downloads by the position of
  the asset in the list.
\<close>

record env =
  getRepository :: "js_error + jsval"
  dangerouslyGetAll :: "js_error + jsval list"
  getTags :: "js_error + string list"
  fetchCustomTypes :: "js_error + response"
  fetchSlices :: "js_error + response"
  fetchAssetsPage :: "nat \<Rightarrow> js_error + response"
  fetchAsset :: "nat \<Rightarrow> js_error + response"
  fs :: "tid \<Rightarrow> fs_op \<Rightarrow> js_error option"
  batch_sched :: "nat \<Rightarrow> nat list"
  docs_sched :: "nat list"
  run_sched :: "nat list"

definition return :: "'a \<Rightarrow> 'a async" where
  "return v = ([], Inr v)"

definition throw :: "js_error \<Rightarrow> 'a async" where
  "throw e = ([], Inl e)"

definition await :: "js_error + 'a \<Rightarrow> 'a async" where
  "await r = ([], r)"

definition and_then :: "'a async \<Rightarrow> ('a \<Rightarrow> 'b async) \<Rightarrow> 'b async" where
  "and_then m f =
     (case m of
        (tr, Inl e) \<Rightarrow> (tr, Inl e)
      | (tr, Inr v) \<Rightarrow> (case f v of (tr', r) \<Rightarrow> (tr @ tr', r)))"

definition try_catch :: "'a async \<Rightarrow> (js_error \<Rightarrow> 'a async) \<Rightarrow> 'a async" where
  "try_catch body handler =
     (case body of
        (tr, Inl e) \<Rightarrow> (case handler e of (tr', r) \<Rightarrow> (tr @ tr', r))
      | (tr, Inr v) \<Rightarrow> (tr, Inr v))"

definition log :: "tid \<Rightarrow> level \<Rightarrow> msg \<Rightarrow> unit async" where
  "log t l m = ([(t, Log l m)], Inr ())"

definition fs_call :: "env \<Rightarrow> tid \<Rightarrow> fs_op \<Rightarrow> unit async" where
  "fs_call env t op =
     ([(t, Fs op (fs env t op))], (case fs env t op of None \<Rightarrow> Inr () | Some e \<Rightarrow> Inl e))"

definition api_returned :: "response \<Rightarrow> js_error" where
  "api_returned r = Error (''API returned '' @ show_nat (status r) @ '' '' @ statusText r)"

definition auth_headers :: "config \<Rightarrow> (string \<times> string) list" where
  "auth_headers c =
     [(''repository'', repositoryName c), (''authorization'', ''Bearer '' @ permanentToken c)]"

definition pushes :: "trace \<Rightarrow> jsval list" where
  "pushes tr = concat (map (\<lambda>(t, ev). case ev of Push a \<Rightarrow> [a] | _ \<Rightarrow> []) tr)"

definition after :: "PrismicBackup \<Rightarrow> trace \<Rightarrow> PrismicBackup" where
  "after this tr = this\<lparr>failedAssets := failedAssets this @ pushes tr\<rparr>"

subsection \<open>Promise.all\<close>

text \<open>
  The tasks handed to \<open>Promise.all\<close> run interleaved: at each step the scheduler picks
  one task that still has effects to perform and that task performs its next one. The
  combined promise rejects as soon as one task has rejected, with the tasks still under
  way left running detached; it fulfils when every task has fulfilled.
\<close>

definition pending :: "'a async \<Rightarrow> bool" where
  "pending t = (fst t \<noteq> [])"

fun first_rejected :: "'a async list \<Rightarrow> js_error option" where
  "first_rejected [] = None"
| "first_rejected ((tr, r) # ts) =
     (case (tr, r) of ([], Inl e) \<Rightarrow> Some e | _ \<Rightarrow> first_rejected ts)"

definition advance :: "'a async \<Rightarrow> 'a async" where
  "advance t = (tl (fst t), snd t)"

definition pick :: "nat list \<Rightarrow> nat \<Rightarrow> nat" where
  "pick choices n = (case choices of [] \<Rightarrow> 0 | c # _ \<Rightarrow> c mod n)"

definition work :: "'a async list \<Rightarrow> nat" where
  "work ts = sum_list (map (\<lambda>t. length (fst t)) ts)"

lemma work_filter_pending: "work (filter pending ts) = work ts"
  by (induction ts) (auto simp: work_def pending_def)

lemma work_advance:
  assumes "k < length ts" and "pending (ts ! k)"
  shows "work (ts[k := advance (ts ! k)]) < work ts"
  using assms
proof (induction ts arbitrary: k)
  case Nil
  then show ?case by simp
next
  case (Cons t ts)
  show ?case
  proof (cases k)
    case 0
    with Cons.prems show ?thesis
      by (cases "fst t") (auto simp: work_def pending_def advance_def)
  next
    case (Suc j)
    with Cons show ?thesis
      by (auto simp: work_def)
  qed
qed

lemma pending_nth_filter: "k < length (filter pending ts) \<Longrightarrow> pending (filter pending ts ! k)"
  using nth_mem [of k "filter pending ts"] by simp

lemma pick_less: "0 < n \<Longrightarrow> pick choices n < n"
  by (simp add: pick_def split: list.splits)

function promise_all :: "nat list \<Rightarrow> 'a async list \<Rightarrow> trace \<times> (js_error + unit) \<times> 'a async list" where
  "promise_all choices ts =
     (case first_rejected ts of
        Some e \<Rightarrow> ([], Inl e, filter pending ts)
      | None \<Rightarrow>
          (if filter pending ts = [] then ([], Inr (), [])
           else
             (case promise_all (tl choices)
                     ((filter pending ts)
                        [pick choices (length (filter pending ts)) :=
                           advance (filter pending ts ! pick choices (length (filter pending ts)))])
              of (evs, r, rest) \<Rightarrow>
                (hd (fst (filter pending ts ! pick choices (length (filter pending ts)))) # evs,
                 r, rest))))"
  by pat_completeness auto
termination
proof (relation "measure (\<lambda>(choices, ts). work ts)")
  show "wf (measure (\<lambda>(choices, ts). work ts))" by simp
next
  fix choices :: "nat list" and ts :: "'a async list"
  assume ne: "filter pending ts \<noteq> []"
  let ?live = "filter pending ts"
  let ?k = "pick choices (length ?live)"
  from ne have k: "?k < length ?live" by (simp add: pick_less)
  then have "pending (?live ! ?k)" by (rule pending_nth_filter)
  with k have "work (?live[?k := advance (?live ! ?k)]) < work ?live" by (rule work_advance)
  then show "((tl choices, ?live[?k := advance (?live ! ?k)]), (choices, ts))
               \<in> measure (\<lambda>(choices, ts). work ts)"
    by (simp add: work_filter_pending)
qed

declare promise_all.simps [simp del]

section \<open>The asset pipeline\<close>

subsection \<open>downloadAsset\<close>

text \<open>\<open>asset.url.split("?")[0]\<close>\<close>

definition canonical_url :: "jsval \<Rightarrow> js_error + string" where
  "canonical_url asset =
     (case get_prop asset ''url'' of
        Inl e \<Rightarrow> Inl e
      | Inr u \<Rightarrow>
          (case split_method u CHR ''?'' of
             Inl e \<Rightarrow> Inl e
           | Inr parts \<Rightarrow>
               (case parts of
                  [] \<Rightarrow> Inl (TypeError ''Cannot read properties of undefined (reading split)'')
                | p # _ \<Rightarrow> Inr p)))"

text \<open>\<open>decodeURIComponent(assetUrl.split("/").pop())\<close>; \<open>pop\<close> of an empty array
  would be \<open>undefined\<close>, which the decoder takes as the string of that name.\<close>

definition hashed_filename :: "string \<Rightarrow> js_error + string" where
  "hashed_filename assetUrl =
     (case js_split CHR ''/'' assetUrl of
        [] \<Rightarrow> decodeURIComponent (js_to_string JUndefined)
      | parts \<Rightarrow> decodeURIComponent (last parts))"

text \<open>The body of the \<open>try\<close> block, from the answer to the request on.\<close>

definition download_try :: "env \<Rightarrow> nat \<Rightarrow> jsval \<Rightarrow> string \<Rightarrow> path \<Rightarrow> unit async" where
  "download_try env i asset hashedFilename dest =
     and_then (await (fetchAsset env i)) (\<lambda>response.
     and_then (if \<not> ok response then throw (api_returned response) else return ()) (\<lambda>_.
     and_then (await (arrayBuffer response)) (\<lambda>buffer.
     and_then (fs_call env (TDownload i) (EnsureDir dest)) (\<lambda>_.
     and_then (fs_call env (TDownload i) (WriteFile (path_join dest hashedFilename) buffer)) (\<lambda>_.
     and_then (await (get_prop asset ''filename'')) (\<lambda>name.
     log (TDownload i) INFO (Downloaded name dest)))))))"

definition download_catch :: "nat \<Rightarrow> jsval \<Rightarrow> js_error \<Rightarrow> unit async" where
  "download_catch i asset error =
     and_then ([(TDownload i, Push asset)], Inr ()) (\<lambda>_.
     and_then (await (get_prop asset ''filename'')) (\<lambda>name.
     log (TDownload i) ERROR (DownloadFailed name (message error))))"

text \<open>
  A call \<open>downloadAsset(asset, dest)\<close> for the asset at position \<open>i\<close>: what it does before
  it returns its promise (it issues the request, unless deriving the URL or the file name
  throws, which rejects the promise at once), and the rest, which runs when the answer
  arrives.
\<close>

definition downloadAsset :: "env \<Rightarrow> nat \<Rightarrow> jsval \<Rightarrow> path \<Rightarrow> trace \<times> unit async" where
  "downloadAsset env i asset dest =
     (case canonical_url asset of
        Inl e \<Rightarrow> ([], throw e)
      | Inr assetUrl \<Rightarrow>
          (case hashed_filename assetUrl of
             Inl e \<Rightarrow> ([], throw e)
           | Inr hashedFilename \<Rightarrow>
               ([(TDownload i, Fetch assetUrl)],
                try_catch (download_try env i asset hashedFilename dest)
                          (download_catch i asset))))"

subsection \<open>The batches\<close>

definition BATCH_SIZE :: nat where
  "BATCH_SIZE = 10"

text \<open>\<open>xs.slice(a, b)\<close> for \<open>0 \<le> a \<le> b\<close>.\<close>

definition slice :: "'a list \<Rightarrow> nat \<Rightarrow> nat \<Rightarrow> 'a list" where
  "slice xs a b = take (b - a) (drop a xs)"

text \<open>\<open>await Promise.all(batch.map((asset) => this.downloadAsset(asset, ASSETS_FOLDER)))\<close>
  for the batch that starts at position \<open>i\<close>: the calls are made in order, then their
  promises are awaited together.\<close>

definition download_batch ::
  "env \<Rightarrow> path \<Rightarrow> nat \<Rightarrow> jsval list \<Rightarrow> trace \<times> (js_error + unit) \<times> unit async list" where
  "download_batch env dest i batch =
     (let calls = map (\<lambda>(j, asset). downloadAsset env j asset dest) (enumerate i batch)
      in case promise_all (batch_sched env i) (map snd calls) of
           (evs, r, detached) \<Rightarrow> (concat (map fst calls) @ evs, r, detached))"

function download_loop ::
  "env \<Rightarrow> path \<Rightarrow> jsval list \<Rightarrow> nat \<Rightarrow> trace \<times> (js_error + unit) \<times> unit async list" where
  "download_loop env dest assets i =
     (if i < length assets then
        (case download_batch env dest i (slice assets i (i + BATCH_SIZE)) of
           (tr, Inl e, detached) \<Rightarrow> (tr, Inl e, detached)
         | (tr, Inr _, _) \<Rightarrow>
             (case download_loop env dest assets (i + BATCH_SIZE) of
                (tr', r, detached) \<Rightarrow> (tr @ tr', r, detached)))
      else ([], Inr (), []))"
  by pat_completeness auto
termination
  by (relation "measure (\<lambda>(env, dest, assets, i). length assets - i)")
     (auto simp: BATCH_SIZE_def)

declare download_loop.simps [simp del]

subsection \<open>The failure manifest\<close>

definition logFailedAssets :: "env \<Rightarrow> PrismicBackup \<Rightarrow> unit async" where
  "logFailedAssets env this =
     try_catch
       (if length (failedAssets this) = 0 then return ()
        else
          and_then (fs_call env TDownloadAssets (EnsureDir (root this))) (\<lambda>_.
          and_then (fs_call env TDownloadAssets
                      (OutputJson (createExportPath (config this) ''failed-assets.json'')
                                  (JArr (failedAssets this)))) (\<lambda>_.
          log TDownloadAssets INFO
            (FailedAssetsLogCreated (length (failedAssets this))
               (createExportPath (config this) ''failed-assets.json'')))))
       (\<lambda>error. log TDownloadAssets ERROR (FailedAssetsLogFailed (message error)))"

subsection \<open>exportAssetsList\<close>

text \<open>\<open>searchParams.set(k, v)\<close>: the first entry named \<open>k\<close> takes the value and the others
  go; without one the pair is appended.\<close>

fun set_param :: "string \<Rightarrow> string \<Rightarrow> (string \<times> string) list \<Rightarrow> (string \<times> string) list" where
  "set_param k v [] = [(k, v)]"
| "set_param k v ((k', v') # ps) =
     (if k' = k then (k, v) # filter (\<lambda>p. fst p \<noteq> k) ps else (k', v') # set_param k v ps)"

text \<open>Spreading \<open>...v\<close> into a call: an array gives its elements, a string its
  characters, any other JSON value is not iterable.\<close>

fun spread :: "jsval \<Rightarrow> js_error + jsval list" where
  "spread (JArr xs) = Inr xs"
| "spread (JStr s) = Inr (map (\<lambda>c. JStr [c]) s)"
| "spread v = Inl (TypeError ''Spread syntax requires ...iterable[Symbol.iterator] to be a function'')"

text \<open>One turn of the \<open>while (true)\<close> loop, up to the test of \<open>data.cursor\<close>: the
  \<open>n\<close>-th request with the current query parameters, giving the items of the page and
  its cursor.\<close>

definition list_page ::
  "env \<Rightarrow> config \<Rightarrow> nat \<Rightarrow> (string \<times> string) list \<Rightarrow> (jsval list \<times> jsval) async" where
  "list_page env c n params =
     and_then ([(TAssetsList, AuthFetch ASSETS_API params (auth_headers c))], fetchAssetsPage env n)
       (\<lambda>response.
     and_then (if \<not> ok response then throw (api_returned response) else return ()) (\<lambda>_.
     and_then (await (json response)) (\<lambda>data.
     and_then (await (get_prop data ''items'')) (\<lambda>its.
     and_then (await (spread its)) (\<lambda>page_items.
     and_then (await (get_prop data ''cursor'')) (\<lambda>cur.
     return (page_items, cur)))))))"

text \<open>The loop. It has no bound of its own, so the model counts the requests it may
  still make: \<open>None\<close> stands for a loop that has not ended within that many requests.\<close>

fun list_loop ::
  "nat \<Rightarrow> env \<Rightarrow> config \<Rightarrow> nat \<Rightarrow> (string \<times> string) list \<Rightarrow> jsval \<Rightarrow> jsval list
     \<Rightarrow> (jsval list) async option" where
  "list_loop 0 env c n params cursor items = None"
| "list_loop (Suc fuel) env c n params cursor items =
     (let params' = (if truthy cursor then set_param ''cursor'' (js_to_string cursor) params
                     else params)
      in case list_page env c n params' of
           (tr, Inl e) \<Rightarrow> Some (tr, Inl e)
         | (tr, Inr (page_items, cur)) \<Rightarrow>
             if \<not> truthy cur then Some (tr, Inr (items @ page_items))
             else (case list_loop fuel env c (Suc n) params' cur (items @ page_items) of
                     None \<Rightarrow> None
                   | Some (tr', r) \<Rightarrow> Some (tr @ tr', r)))"

text \<open>The result is the list of items, or \<open>None\<close> for \<open>undefined\<close>.\<close>

definition exportAssetsList ::
  "nat \<Rightarrow> env \<Rightarrow> PrismicBackup \<Rightarrow> (jsval list option) async option" where
  "exportAssetsList fuel env this =
     (case list_loop fuel env (config this) 0 [(''limit'', ''1000'')] JNull [] of
        None \<Rightarrow> None
      | Some listed \<Rightarrow>
          Some (try_catch
            (and_then listed (\<lambda>items.
             and_then (fs_call env TAssetsList (EnsureDir (root this))) (\<lambda>_.
             and_then (fs_call env TAssetsList
                         (OutputJson (createExportPath (config this) ''assets.json'') (JArr items)))
               (\<lambda>_.
             and_then (log TAssetsList INFO
                         (AssetsExported (length items)
                            (createExportPath (config this) ''assets.json''))) (\<lambda>_.
             return (Some items))))))
            (\<lambda>error.
             and_then (log TAssetsList ERROR (AssetsListFailed (message error))) (\<lambda>_.
             return None))))"

subsection \<open>downloadAssets\<close>

text \<open>
  The outcome of a call: the object at the moment the returned promise settles; the
  effects, in order, that the call and the tasks it awaits perform up to their own
  settlement; how the promise settles; and the tasks that were still under way when a
  rejected \<open>Promise.all\<close> was abandoned. Those tasks go on by themselves: what they still
  do is listed in \<open>detached\<close> only. It may happen before or after anything in \<open>effects\<close>
  that follows the rejection, and what they push reaches the object when it happens, so
  \<open>this_after\<close> is the object a later call finds only if \<open>detached\<close> holds no push.
\<close>

record outcome =
  this_after :: PrismicBackup
  effects :: trace
  settled :: "js_error + unit"
  detached :: "unit async list"

text \<open>From the test for an empty list on (the list is an array here).\<close>

definition download_all :: "env \<Rightarrow> PrismicBackup \<Rightarrow> jsval list \<Rightarrow> trace \<times> (js_error + unit) \<times> unit async list" where
  "download_all env this assets =
     (if truthy (JArr assets) \<and> length assets = 0 then
        (fst (log TDownloadAssets WARN NoAssetsFound), Inr (), [])
      else
        (case download_loop env (createExportPath (config this) ''assets'') assets 0 of
           (tr, Inl e, orphans) \<Rightarrow> (tr, Inl e, orphans)
         | (tr, Inr _, orphans) \<Rightarrow>
             (case and_then (logFailedAssets env (after this tr)) (\<lambda>_.
                   log TDownloadAssets INFO
                     (DownloadedCount
                        (int (length assets) - int (length (failedAssets (after this tr))))
                        (length assets)))
              of (tr', r) \<Rightarrow> (tr @ tr', r, orphans))))"

definition download_guard ::
  "PrismicBackup \<Rightarrow> trace \<times> (js_error + unit) \<times> unit async list \<Rightarrow> outcome" where
  "download_guard this body =
     (case body of
        (tr, Inl error, orphans) \<Rightarrow>
          \<lparr>this_after = after this tr,
           effects = tr @ fst (log TDownloadAssets ERROR (AssetsDownloadFailed (message error))),
           settled = Inr (), detached = orphans\<rparr>
      | (tr, Inr v, orphans) \<Rightarrow>
          \<lparr>this_after = after this tr, effects = tr, settled = Inr v, detached = orphans\<rparr>)"

definition downloadAssets ::
  "nat \<Rightarrow> env \<Rightarrow> PrismicBackup \<Rightarrow> jsval list option \<Rightarrow> outcome option" where
  "downloadAssets fuel env this assets =
     (case assets of
        Some given \<Rightarrow> Some (download_guard this (download_all env this given))
      | None \<Rightarrow>
          (case exportAssetsList fuel env this of
             None \<Rightarrow> None
           | Some (tr, listed) \<Rightarrow>
               Some (download_guard this
                 (case listed of
                    Inl e \<Rightarrow> (fst (log TDownloadAssets INFO NoAssetsProvided) @ tr, Inl e, [])
                  | Inr None \<Rightarrow> (fst (log TDownloadAssets INFO NoAssetsProvided) @ tr, Inr (), [])
                  | Inr (Some fetched) \<Rightarrow>
                      (case download_all env this fetched of
                         (tr', r, orphans) \<Rightarrow>
                           (fst (log TDownloadAssets INFO NoAssetsProvided) @ tr @ tr', r, orphans))))))"

section \<open>The exporters\<close>

definition exportRepositoryDetails :: "env \<Rightarrow> PrismicBackup \<Rightarrow> jsval async" where
  "exportRepositoryDetails env this =
     try_catch
       (and_then (await (getRepository env)) (\<lambda>repo.
          if \<not> truthy repo then
            and_then (log TRepository WARN NoRepository) (\<lambda>_. return JUndefined)
          else
            and_then (fs_call env TRepository (EnsureDir (root this))) (\<lambda>_.
            and_then (fs_call env TRepository
                        (OutputJson (createExportPath (config this) ''repository.json'') repo)) (\<lambda>_.
            and_then (log TRepository INFO
                        (RepositoryExported (createExportPath (config this) ''repository.json'')))
              (\<lambda>_.
            return repo)))))
       (\<lambda>error.
          and_then (log TRepository ERROR (RepositoryFailed (message error))) (\<lambda>_.
          return JUndefined))"

text \<open>
  Names that an empty object literal inherits: \<open>acc[k] || []\<close> finds the inherited value
  for them, which has no \<open>push\<close>.
\<close>

definition object_prototype_keys :: "string list" where
  "object_prototype_keys =
     [''constructor'', ''__proto__'', ''hasOwnProperty'', ''isPrototypeOf'',
      ''propertyIsEnumerable'', ''toLocaleString'', ''toString'', ''valueOf'',
      ''__defineGetter__'', ''__defineSetter__'', ''__lookupGetter__'', ''__lookupSetter__'']"

fun add_to_group :: "string \<Rightarrow> jsval \<Rightarrow> (string \<times> jsval list) list \<Rightarrow> (string \<times> jsval list) list" where
  "add_to_group k doc [] = [(k, [doc])]"
| "add_to_group k doc ((k', docs) # acc) =
     (if k' = k then (k', docs @ [doc]) # acc else (k', docs) # add_to_group k doc acc)"

text \<open>The \<open>reduce\<close> that groups the documents by \<open>doc.type\<close>, the groups in the order
  in which their types first occur.\<close>

fun group_by_type ::
  "jsval list \<Rightarrow> (string \<times> jsval list) list \<Rightarrow> js_error + (string \<times> jsval list) list" where
  "group_by_type [] acc = Inr acc"
| "group_by_type (doc # docs) acc =
     (case get_prop doc ''type'' of
        Inl e \<Rightarrow> Inl e
      | Inr ty \<Rightarrow>
          if js_to_string ty \<in> set object_prototype_keys
          then Inl (TypeError ''(intermediate value).push is not a function'')
          else group_by_type docs (add_to_group (js_to_string ty) doc acc))"

definition documents_catch :: "js_error \<Rightarrow> jsval async" where
  "documents_catch error =
     and_then (log TDocuments ERROR (DocumentsFailed (message error))) (\<lambda>_. return JUndefined)"

text \<open>
  \<open>exportDocuments\<close>, with the writes per type that were still under way if their
  \<open>Promise.all\<close> rejected. \<open>Object.entries\<close> lists integer-like keys first; that only
  orders the starts of writes which then complete in the scheduler's order, so the groups
  are taken in insertion order here.
\<close>

definition exportDocuments :: "env \<Rightarrow> PrismicBackup \<Rightarrow> jsval async \<times> unit async list" where
  "exportDocuments env this =
     (case
        and_then (await (dangerouslyGetAll env)) (\<lambda>allDocs.
          if truthy (JArr allDocs) \<and> length allDocs = 0 then
            and_then (log TDocuments WARN NoDocuments) (\<lambda>_. return None)
          else
            and_then (fs_call env TDocuments (EnsureDir (root this))) (\<lambda>_.
            and_then (fs_call env TDocuments
                        (OutputJson (createExportPath (config this) ''documents.json'')
                                    (JArr allDocs))) (\<lambda>_.
            and_then (log TDocuments INFO
                        (DocumentsExported (length allDocs)
                           (createExportPath (config this) ''documents.json''))) (\<lambda>_.
            and_then (await (group_by_type allDocs [])) (\<lambda>types.
            return (Some (allDocs, types)))))))
      of
        (tr, Inl error) \<Rightarrow> (try_catch (tr, Inl error) documents_catch, [])
      | (tr, Inr None) \<Rightarrow> ((tr, Inr JUndefined), [])
      | (tr, Inr (Some (allDocs, types))) \<Rightarrow>
          (case promise_all (docs_sched env)
                  (map (\<lambda>(type, docs).
                          fs_call env (TDocType type)
                            (OutputJson
                               (path_join (createExportPath (config this) ''documents'')
                                          (type @ ''.json''))
                               (JArr docs)))
                       types)
           of (evs, r, orphans) \<Rightarrow>
             (try_catch
                (and_then (tr @ evs, r) (\<lambda>_.
                 and_then (log TDocuments INFO
                             (DocumentsByType (length types)
                                (createExportPath (config this) ''documents''))) (\<lambda>_.
                 return (JArr allDocs))))
                documents_catch,
              orphans)))"

definition exportTags :: "env \<Rightarrow> PrismicBackup \<Rightarrow> jsval async" where
  "exportTags env this =
     try_catch
       (and_then (await (getTags env)) (\<lambda>tags.
          if truthy (JArr (map JStr tags)) \<and> length tags < 1 then
            and_then (log TTags WARN NoTags) (\<lambda>_. return JUndefined)
          else
            and_then (fs_call env TTags (EnsureDir (root this))) (\<lambda>_.
            and_then (fs_call env TTags
                        (WriteFile (createExportPath (config this) ''tags.txt'')
                                   (join_with [CHR 0x0A] tags))) (\<lambda>_.
            and_then (log TTags INFO
                        (TagsExported (length tags)
                           (createExportPath (config this) ''tags.txt''))) (\<lambda>_.
            return (JArr (map JStr tags)))))))
       (\<lambda>error.
          and_then (log TTags ERROR (TagsFailed (message error))) (\<lambda>_. return JUndefined))"

definition exportCustomTypes :: "env \<Rightarrow> PrismicBackup \<Rightarrow> jsval async" where
  "exportCustomTypes env this =
     try_catch
       (and_then ([(TCustomTypes, AuthFetch CUSTOM_TYPES_API [] (auth_headers (config this)))],
                  fetchCustomTypes env) (\<lambda>response.
        and_then (if \<not> ok response then throw (api_returned response) else return ()) (\<lambda>_.
        and_then (await (json response)) (\<lambda>customTypes.
        and_then (fs_call env TCustomTypes (EnsureDir (root this))) (\<lambda>_.
        and_then (fs_call env TCustomTypes
                    (OutputJson (createExportPath (config this) ''custom-types.json'')
                                customTypes)) (\<lambda>_.
        and_then (await (get_prop customTypes ''length'')) (\<lambda>n.
        and_then (log TCustomTypes INFO
                    (CustomTypesExported n
                       (createExportPath (config this) ''custom-types.json''))) (\<lambda>_.
        return customTypes))))))))
       (\<lambda>error.
          and_then (log TCustomTypes ERROR (CustomTypesFailed (message error))) (\<lambda>_.
          return JUndefined))"

definition exportSharedSlices :: "env \<Rightarrow> PrismicBackup \<Rightarrow> jsval async" where
  "exportSharedSlices env this =
     try_catch
       (and_then ([(TSharedSlices, AuthFetch SLICES_API [] (auth_headers (config this)))],
                  fetchSlices env) (\<lambda>response.
        and_then (if \<not> ok response then throw (api_returned response) else return ()) (\<lambda>_.
        and_then (await (json response)) (\<lambda>sharedSlices.
          if truthy sharedSlices \<and> get_prop sharedSlices ''length'' = Inr (JNum 0) then
            and_then (log TSharedSlices WARN NoSharedSlices) (\<lambda>_. return JUndefined)
          else
            and_then (fs_call env TSharedSlices (EnsureDir (root this))) (\<lambda>_.
            and_then (fs_call env TSharedSlices
                        (OutputJson (createExportPath (config this) ''shared-slices.json'')
                                    sharedSlices)) (\<lambda>_.
            and_then (await (get_prop sharedSlices ''length'')) (\<lambda>n.
            and_then (log TSharedSlices INFO
                        (SharedSlicesExported n
                           (createExportPath (config this) ''shared-slices.json''))) (\<lambda>_.
            return sharedSlices))))))))
       (\<lambda>error.
          and_then (log TSharedSlices ERROR (SharedSlicesFailed (message error))) (\<lambda>_.
          return JUndefined))"

section \<open>The orchestrator\<close>

definition ignore_value :: "'a async \<Rightarrow> unit async" where
  "ignore_value t = (fst t, (case snd t of Inl e \<Rightarrow> Inl e | Inr _ \<Rightarrow> Inr ()))"

text \<open>The six promises in the order in which \<open>run\<close> creates them.\<close>

definition run_tasks :: "env \<Rightarrow> PrismicBackup \<Rightarrow> outcome \<Rightarrow> unit async list" where
  "run_tasks env this assets_task =
     [ignore_value (exportRepositoryDetails env this),
      ignore_value (fst (exportDocuments env this)),
      ignore_value (exportTags env this),
      ignore_value (exportCustomTypes env this),
      ignore_value (exportSharedSlices env this),
      (effects assets_task, settled assets_task)]"

text \<open>
  \<open>run\<close>: the start line, the six tasks awaited together, the line with the duration
  (the duration itself, a reading of the clock, is left out of the message). \<open>None\<close>
  when the asset listing does not end within \<open>fuel\<close> requests. As for every outcome,
  \<open>effects\<close> orders what \<open>run\<close> and its six tasks do; the writes per type and the downloads
  that a rejected \<open>Promise.all\<close> inside a task left under way are in \<open>detached\<close>, and what
  they still do may fall before the line with the duration as well as after it.
\<close>

definition run :: "nat \<Rightarrow> env \<Rightarrow> PrismicBackup \<Rightarrow> outcome option" where
  "run fuel env this =
     (case downloadAssets fuel env this None of
        None \<Rightarrow> None
      | Some assets_task \<Rightarrow>
          (case promise_all (run_sched env) (run_tasks env this assets_task) of
             (evs, r, orphans) \<Rightarrow>
               (case and_then (log TRun INFO BackupStarted) (\<lambda>_.
                     and_then (evs, r) (\<lambda>_.
                     log TRun INFO BackupCompleted))
                of (tr, r') \<Rightarrow>
                  Some \<lparr>this_after = after this tr, effects = tr, settled = r',
                        detached = orphans @ snd (exportDocuments env this)
                                     @ detached assets_task\<rparr>)))"

section \<open>Properties of Promise.all\<close>

lemma concat_filter_pending: "concat (map fst (filter pending ts)) = concat (map fst ts)"
  by (induction ts) (auto simp: pending_def)

lemma mset_concat_advance:
  "k < length ts \<Longrightarrow> pending (ts ! k) \<Longrightarrow>
   add_mset (hd (fst (ts ! k))) (mset (concat (map fst (ts[k := advance (ts ! k)]))))
     = mset (concat (map fst ts))"
proof (induction ts arbitrary: k)
  case Nil
  then show ?case by simp
next
  case (Cons t ts)
  show ?case
  proof (cases k)
    case 0
    with Cons.prems show ?thesis
      by (cases "fst t") (auto simp: pending_def advance_def)
  next
    case (Suc j)
    with Cons.prems have "j < length ts" "pending (ts ! j)" by simp_all
    from Cons.IH [OF this] Suc show ?thesis by simp
  qed
qed

definition fulfils :: "'a async \<Rightarrow> bool" where
  "fulfils t = (case snd t of Inl _ \<Rightarrow> False | Inr _ \<Rightarrow> True)"

lemma first_rejected_none: "\<forall>t \<in> set ts. fulfils t \<Longrightarrow> first_rejected ts = None"
  by (induction ts) (auto simp: fulfils_def split: list.splits sum.splits)

lemma fulfils_advance: "fulfils (advance t) = fulfils t"
  by (simp add: fulfils_def advance_def)

lemma promise_all_fulfils:
  "\<forall>t \<in> set ts. fulfils t \<Longrightarrow>
   \<exists>evs. promise_all choices ts = (evs, Inr (), []) \<and> mset evs = mset (concat (map fst ts))"
proof (induction choices ts rule: promise_all.induct)
  case (1 choices ts)
  let ?live = "filter pending ts"
  let ?k = "pick choices (length ?live)"
  from "1.prems" have none: "first_rejected ts = None" by (rule first_rejected_none)
  show ?case
  proof (cases "?live = []")
    case True
    then have "concat (map fst ?live) = []" by simp
    then have "concat (map fst ts) = []" by (simp only: concat_filter_pending)
    with none True show ?thesis
      by (subst promise_all.simps) simp
  next
    case False
    then have k: "?k < length ?live" by (simp add: pick_less)
    then have pk: "pending (?live ! ?k)" by (rule pending_nth_filter)
    have "\<forall>t \<in> set (?live[?k := advance (?live ! ?k)]). fulfils t"
    proof
      fix t assume "t \<in> set (?live[?k := advance (?live ! ?k)])"
      then have "t \<in> insert (advance (?live ! ?k)) (set ?live)"
        using set_update_subset_insert by fastforce
      moreover have "fulfils (?live ! ?k)" using k "1.prems" nth_mem [OF k] by simp
      ultimately show "fulfils t" using "1.prems" by (auto simp: fulfils_advance)
    qed
    from "1.IH" [OF none False this]
    obtain evs where rec: "promise_all (tl choices) (?live[?k := advance (?live ! ?k)]) = (evs, Inr (), [])"
      and ms: "mset evs = mset (concat (map fst (?live[?k := advance (?live ! ?k)])))"
      by blast
    have "promise_all choices ts = (hd (fst (?live ! ?k)) # evs, Inr (), [])"
      using none False rec by (subst promise_all.simps) simp
    moreover have "mset (hd (fst (?live ! ?k)) # evs) = mset (concat (map fst ts))"
      using mset_concat_advance [OF k pk] ms by (simp add: concat_filter_pending)
    ultimately show ?thesis by blast
  qed
qed

lemma promise_all_rejected:
  "first_rejected ts = Some e \<Longrightarrow> promise_all choices ts = ([], Inl e, filter pending ts)"
  by (subst promise_all.simps) simp

section \<open>Properties of the downloads\<close>

definition startable :: "jsval \<Rightarrow> bool" where
  "startable asset =
     (case canonical_url asset of
        Inl _ \<Rightarrow> False
      | Inr u \<Rightarrow> (case hashed_filename u of Inl _ \<Rightarrow> False | Inr _ \<Rightarrow> True))"

fun written :: "tid \<times> event \<Rightarrow> bool" where
  "written (t, Fs (WriteFile p b) None) = True"
| "written _ = False"

lemma canonical_url_filename:
  "canonical_url asset = Inr u \<Longrightarrow> \<exists>name. get_prop asset ''filename'' = Inr name"
  by (cases asset) (auto simp: canonical_url_def)

lemma pushes_Nil [simp]: "pushes [] = []"
  by (simp add: pushes_def)

lemma pushes_Cons_Push [simp]: "pushes ((t, Push a) # tr) = a # pushes tr"
  by (simp add: pushes_def)

lemma pushes_Cons_Fs [simp]: "pushes ((t, Fs op r) # tr) = pushes tr"
  by (simp add: pushes_def)

lemma pushes_Cons_Log [simp]: "pushes ((t, Log l m) # tr) = pushes tr"
  by (simp add: pushes_def)

lemma pushes_Cons_Fetch [simp]: "pushes ((t, Fetch u) # tr) = pushes tr"
  by (simp add: pushes_def)

lemma pushes_Cons_AuthFetch [simp]: "pushes ((t, AuthFetch u q h) # tr) = pushes tr"
  by (simp add: pushes_def)

lemma pushes_append [simp]: "pushes (xs @ ys) = pushes xs @ pushes ys"
  by (simp add: pushes_def)

lemmas async_defs = and_then_def try_catch_def await_def return_def throw_def log_def fs_call_def

lemma download_settles:
  assumes "get_prop asset ''filename'' = Inr name"
  shows "snd (try_catch (download_try env i asset n dest) (download_catch i asset)) = Inr ()"
  using assms
  by (simp add: download_try_def download_catch_def async_defs split: sum.splits option.splits)


definition call_events :: "env \<Rightarrow> path \<Rightarrow> nat \<times> jsval \<Rightarrow> trace" where
  "call_events env dest c =
     (case c of (j, asset) \<Rightarrow>
        fst (downloadAsset env j asset dest) @ fst (snd (downloadAsset env j asset dest)))"

lemma downloadAsset_startable:
  assumes "startable asset"
  shows "\<exists>u. canonical_url asset = Inr u
           \<and> fst (downloadAsset env j asset dest) = [(TDownload j, Fetch u)]
           \<and> fulfils (snd (downloadAsset env j asset dest))
           \<and> pending (snd (downloadAsset env j asset dest))"
proof -
  from assms obtain u n where u: "canonical_url asset = Inr u" and n: "hashed_filename u = Inr n"
    by (auto simp: startable_def split: sum.splits)
  from canonical_url_filename [OF u] obtain name where name: "get_prop asset ''filename'' = Inr name" ..
  have "fulfils (snd (downloadAsset env j asset dest))"
    using download_settles [OF name, of env j n dest] u n
    by (simp add: downloadAsset_def fulfils_def)
  moreover have "pending (snd (downloadAsset env j asset dest))"
    using name u n
    by (simp add: downloadAsset_def pending_def download_try_def download_catch_def async_defs
             split: sum.splits option.splits)
  ultimately show ?thesis using u n by (simp add: downloadAsset_def)
qed

lemma downloadAsset_not_startable:
  assumes "\<not> startable asset"
  shows "\<exists>e. downloadAsset env j asset dest = ([], ([], Inl e))"
  using assms
  by (auto simp: startable_def downloadAsset_def throw_def split: sum.splits)

lemma first_rejected_some:
  "([], Inl e) \<in> set ts \<Longrightarrow> \<exists>e'. first_rejected ts = Some e'"
  by (induction ts) (auto split: list.splits sum.splits)

lemma mset_concat_map_append:
  "mset (concat (map f xs)) + mset (concat (map g xs)) = mset (concat (map (\<lambda>x. f x @ g x) xs))"
  by (induction xs) auto

lemma first_rejected_is_rejected:
  "first_rejected ts = Some e \<Longrightarrow> ([], Inl e) \<in> set ts"
  by (induction ts) (auto split: list.splits sum.splits)

text \<open>A batch in which every descriptor can be started.\<close>

lemma download_batch_completes:
  assumes "\<forall>a \<in> set batch. startable a"
  shows "\<exists>tr. download_batch env dest i batch = (tr, Inr (), [])
           \<and> mset tr = mset (concat (map (call_events env dest) (enumerate i batch)))"
proof -
  let ?calls = "map (\<lambda>(j, asset). downloadAsset env j asset dest) (enumerate i batch)"
  have "\<forall>t \<in> set (map snd ?calls). fulfils t"
  proof
    fix t assume "t \<in> set (map snd ?calls)"
    then obtain j a where "(j, a) \<in> set (enumerate i batch)" and t: "t = snd (downloadAsset env j a dest)"
      by auto
    then have "a \<in> set batch" by (auto simp: enumerate_eq_zip dest: set_zip_rightD)
    with assms have "startable a" by simp
    from downloadAsset_startable [OF this, of env j dest] t show "fulfils t" by blast
  qed
  from promise_all_fulfils [OF this, of "batch_sched env i"]
  obtain evs where pa: "promise_all (batch_sched env i) (map snd ?calls) = (evs, Inr (), [])"
    and ms: "mset evs = mset (concat (map fst (map snd ?calls)))" by blast
  have "mset (concat (map fst ?calls) @ evs)
          = mset (concat (map (call_events env dest) (enumerate i batch)))"
  proof -
    have "(\<lambda>c. fst ((\<lambda>(j, asset). downloadAsset env j asset dest) c)
                @ fst (snd ((\<lambda>(j, asset). downloadAsset env j asset dest) c)))
            = call_events env dest"
      by (auto simp: call_events_def fun_eq_iff)
    then show ?thesis
      unfolding mset_append ms map_map
      using mset_concat_map_append
              [of "fst \<circ> (\<lambda>(j, asset). downloadAsset env j asset dest)" "enumerate i batch"
                  "fst \<circ> snd \<circ> (\<lambda>(j, asset). downloadAsset env j asset dest)"]
      by (simp add: comp_def)
  qed
  with pa show ?thesis by (simp add: download_batch_def Let_def)
qed

lemma download_batch_aborts:
  assumes "a \<in> set batch" and "\<not> startable a"
  shows "\<exists>e. download_batch env dest i batch
           = (concat (map (\<lambda>(j, asset). fst (downloadAsset env j asset dest)) (enumerate i batch)),
              Inl e,
              filter pending (map (\<lambda>(j, asset). snd (downloadAsset env j asset dest)) (enumerate i batch)))"
proof -
  let ?calls = "map (\<lambda>(j, asset). downloadAsset env j asset dest) (enumerate i batch)"
  from assms(1) obtain k where k: "k < length batch" and a: "batch ! k = a"
    by (auto simp: in_set_conv_nth)
  then have "(i + k, a) \<in> set (enumerate i batch)"
    by (auto simp: in_set_enumerate_eq)
  moreover from downloadAsset_not_startable [OF assms(2), of env "i + k" dest]
  obtain e where "downloadAsset env (i + k) a dest = ([], ([], Inl e))" ..
  ultimately have "([], Inl e) \<in> set (map snd ?calls)" by force
  from first_rejected_some [OF this] obtain e' where "first_rejected (map snd ?calls) = Some e'" ..
  from promise_all_rejected [OF this, of "batch_sched env i"]
  show ?thesis
    by (simp add: download_batch_def Let_def comp_def case_prod_unfold)
qed

lemma enumerate_split:
  "enumerate i (drop i xs) = enumerate i (take n (drop i xs)) @ enumerate (i + n) (drop (i + n) xs)"
proof -
  have "enumerate i (drop i xs) = enumerate i (take n (drop i xs) @ drop n (drop i xs))"
    by (simp only: append_take_drop_id)
  also have "\<dots> = enumerate i (take n (drop i xs))
                 @ enumerate (i + length (take n (drop i xs))) (drop (i + n) xs)"
    by (simp only: enumerate_append_eq drop_drop add.commute)
  also have "enumerate (i + length (take n (drop i xs))) (drop (i + n) xs)
               = enumerate (i + n) (drop (i + n) xs)"
    by (cases "n \<le> length (drop i xs)") (simp_all add: min_def)
  finally show ?thesis .
qed

lemma download_loop_completes:
  "\<forall>a \<in> set (drop i assets). startable a \<Longrightarrow>
   \<exists>tr. download_loop env dest assets i = (tr, Inr (), [])
     \<and> mset tr = mset (concat (map (call_events env dest) (enumerate i (drop i assets))))"
proof (induction env dest assets i rule: download_loop.induct)
  case (1 env dest assets i)
  show ?case
  proof (cases "i < length assets")
    case False
    then show ?thesis by (subst download_loop.simps) simp
  next
    case True
    let ?batch = "slice assets i (i + BATCH_SIZE)"
    have batch: "?batch = take BATCH_SIZE (drop i assets)" by (simp add: slice_def)
    then have "\<forall>a \<in> set ?batch. startable a"
      using "1.prems" by (auto dest: in_set_takeD)
    from download_batch_completes [OF this, of env dest i]
    obtain tr where b: "download_batch env dest i ?batch = (tr, Inr (), [])"
      and mtr: "mset tr = mset (concat (map (call_events env dest) (enumerate i ?batch)))"
      by blast
    have "\<forall>a \<in> set (drop (i + BATCH_SIZE) assets). startable a"
      using "1.prems" by (metis add.commute drop_drop in_set_dropD)
    from "1.IH" [OF True b [symmetric] refl refl this]
    obtain tr' where r: "download_loop env dest assets (i + BATCH_SIZE) = (tr', Inr (), [])"
      and mtr': "mset tr' = mset (concat (map (call_events env dest)
                   (enumerate (i + BATCH_SIZE) (drop (i + BATCH_SIZE) assets))))"
      by blast
    have "download_loop env dest assets i = (tr @ tr', Inr (), [])"
      using True b r by (subst download_loop.simps) simp
    moreover have "mset (tr @ tr') = mset (concat (map (call_events env dest) (enumerate i (drop i assets))))"
      by (subst enumerate_split [of i assets BATCH_SIZE]) (simp add: mtr mtr' batch)
    ultimately show ?thesis by blast
  qed
qed


definition by_task :: "tid \<Rightarrow> trace \<Rightarrow> trace" where
  "by_task t tr = filter (\<lambda>e. fst e = t) tr"


lemma set_pushes: "set (pushes tr) = {a. \<exists>t. (t, Push a) \<in> set tr}"
  by (auto simp: pushes_def split: event.splits)



text \<open>The effects of one call.\<close>

lemma call_events_not_startable: "\<not> startable a \<Longrightarrow> call_events env dest (j, a) = []"
  using downloadAsset_not_startable [of a env j dest] by (auto simp: call_events_def)

lemma call_events_task: "e \<in> set (call_events env dest (j, a)) \<Longrightarrow> fst e = TDownload j"
  by (auto simp: call_events_def downloadAsset_def download_try_def download_catch_def async_defs
           split: sum.splits option.splits if_splits)

lemma call_events_pushes: "set (pushes (call_events env dest (j, a))) \<subseteq> {a}"
  by (auto simp: call_events_def downloadAsset_def download_try_def download_catch_def async_defs
           split: sum.splits option.splits if_splits)










lemma enumerate_split_set:
  "set (enumerate i (drop i xs))
     = set (enumerate i (take n (drop i xs))) \<union> set (enumerate (i + n) (drop (i + n) xs))"
  using enumerate_split [of i xs n] by (metis set_append)

lemma enumerate_take_subset:
  "set (enumerate i (take n (drop i xs))) \<subseteq> set (enumerate i (drop i xs))"
  using enumerate_split_set [of i xs n] by blast

lemma enumerate_drop_subset:
  "set (enumerate (i + n) (drop (i + n) xs)) \<subseteq> set (enumerate i (drop i xs))"
  using enumerate_split_set [of i xs n] by blast

definition calls_from :: "env \<Rightarrow> path \<Rightarrow> jsval list \<Rightarrow> nat \<Rightarrow> (tid \<times> event) set" where
  "calls_from env dest assets i =
     set (concat (map (call_events env dest) (enumerate i (drop i assets))))"

lemma calls_from_batch:
  "set (concat (map (call_events env dest) (enumerate i (take n (drop i assets)))))
     \<subseteq> calls_from env dest assets i"
  using enumerate_take_subset [of i n assets] by (auto simp: calls_from_def)

lemma calls_from_rest: "calls_from env dest assets (i + n) \<subseteq> calls_from env dest assets i"
  using enumerate_drop_subset [of i n assets] by (auto simp: calls_from_def)

lemma batch_fetches_subset:
  "set (concat (map (\<lambda>(j, asset). fst (downloadAsset env j asset dest)) (enumerate i batch)))
     \<subseteq> set (concat (map (call_events env dest) (enumerate i batch)))"
  by (auto simp: call_events_def)

lemma batch_orphans_subset:
  assumes "t \<in> set (filter pending (map (\<lambda>(j, asset). snd (downloadAsset env j asset dest))
                                        (enumerate i batch)))"
  shows "set (fst t) \<subseteq> set (concat (map (call_events env dest) (enumerate i batch)))"
  using assms by (auto simp: call_events_def)

text \<open>Whatever the descriptors are, the loop performs only effects of the calls it
  makes, and so do the downloads it leaves detached.\<close>

lemma download_loop_effects:
  "set (fst (download_loop env dest assets i)) \<subseteq> calls_from env dest assets i
   \<and> (\<forall>t \<in> set (snd (snd (download_loop env dest assets i))).
         set (fst t) \<subseteq> calls_from env dest assets i)"
proof (induction env dest assets i rule: download_loop.induct)
  case (1 env dest assets i)
  show ?case
  proof (cases "i < length assets")
    case False
    then show ?thesis by (subst (1 2) download_loop.simps) simp
  next
    case True
    let ?batch = "slice assets i (i + BATCH_SIZE)"
    have batch: "?batch = take BATCH_SIZE (drop i assets)" by (simp add: slice_def)
    show ?thesis
    proof (cases "\<forall>a \<in> set ?batch. startable a")
      case False
      then obtain a where "a \<in> set ?batch" "\<not> startable a" by blast
      from download_batch_aborts [OF this, of env dest i]
      obtain e where b: "download_batch env dest i ?batch
           = (concat (map (\<lambda>(j, asset). fst (downloadAsset env j asset dest)) (enumerate i ?batch)),
              Inl e,
              filter pending (map (\<lambda>(j, asset). snd (downloadAsset env j asset dest))
                                  (enumerate i ?batch)))" ..
      have "download_loop env dest assets i
              = (concat (map (\<lambda>(j, asset). fst (downloadAsset env j asset dest)) (enumerate i ?batch)),
                 Inl e,
                 filter pending (map (\<lambda>(j, asset). snd (downloadAsset env j asset dest))
                                     (enumerate i ?batch)))"
        using True b by (subst download_loop.simps) simp
      then show ?thesis
        using batch_fetches_subset [of env dest i ?batch]
              batch_orphans_subset [of _ env dest i ?batch]
              calls_from_batch [of env dest i BATCH_SIZE assets]
        unfolding batch by (simp only: fst_conv snd_conv) blast
    next
      case all: True
      from download_batch_completes [OF this, of env dest i]
      obtain tr where b: "download_batch env dest i ?batch = (tr, Inr (), [])"
        and mtr: "mset tr = mset (concat (map (call_events env dest) (enumerate i ?batch)))"
        by blast
      obtain tr' r orph where rest: "download_loop env dest assets (i + BATCH_SIZE) = (tr', r, orph)"
        by (cases "download_loop env dest assets (i + BATCH_SIZE)") auto
      from "1.IH" [OF True b [symmetric] refl refl] rest
      have ih: "set tr' \<subseteq> calls_from env dest assets (i + BATCH_SIZE)"
        "\<forall>t \<in> set orph. set (fst t) \<subseteq> calls_from env dest assets (i + BATCH_SIZE)"
        by simp_all
      have "set tr \<subseteq> calls_from env dest assets i"
        using mset_eq_setD [OF mtr] calls_from_batch [of env dest i BATCH_SIZE assets]
        unfolding batch by simp
      moreover have "download_loop env dest assets i = (tr @ tr', r, orph)"
        using True b rest by (subst download_loop.simps) simp
      moreover have "set tr' \<subseteq> calls_from env dest assets i"
        using ih(1) calls_from_rest [of env dest assets i BATCH_SIZE] by blast
      moreover have "\<forall>t \<in> set orph. set (fst t) \<subseteq> calls_from env dest assets i"
        using ih(2) calls_from_rest [of env dest assets i BATCH_SIZE] by blast
      ultimately show ?thesis by simp
    qed
  qed
qed

lemma download_loop_aborts:
  assumes "i \<le> j" and "j < length assets" and "\<not> startable (assets ! j)"
  shows "\<exists>tr e orph. download_loop env dest assets i = (tr, Inl e, orph)
           \<and> (\<forall>x \<in> set tr. \<exists>k. fst x = TDownload k
                  \<and> k < i + BATCH_SIZE * ((j - i) div BATCH_SIZE + 1))"
  using assms
proof (induction env dest assets i rule: download_loop.induct)
  case (1 env dest assets i)
  from "1.prems" have True: "i < length assets" by simp
  let ?batch = "slice assets i (i + BATCH_SIZE)"
  have batch: "?batch = take BATCH_SIZE (drop i assets)" by (simp add: slice_def)
  have in_batch: "\<exists>k. fst x = TDownload k \<and> k < i + BATCH_SIZE"
    if "x \<in> set (concat (map (call_events env dest) (enumerate i ?batch)))" for x
  proof -
    from that obtain k a where ka: "(k, a) \<in> set (enumerate i ?batch)"
      and x: "x \<in> set (call_events env dest (k, a))" by auto
    from ka have "k < i + BATCH_SIZE" by (auto simp: in_set_enumerate_eq batch)
    with call_events_task [OF x] show ?thesis by blast
  qed
  have bound: "i + BATCH_SIZE \<le> i + BATCH_SIZE * ((j - i) div BATCH_SIZE + 1)" by simp
  show ?case
  proof (cases "\<forall>a \<in> set ?batch. startable a")
    case False
    then obtain a where "a \<in> set ?batch" "\<not> startable a" by blast
    from download_batch_aborts [OF this, of env dest i]
    obtain e where b: "download_batch env dest i ?batch
         = (concat (map (\<lambda>(j, asset). fst (downloadAsset env j asset dest)) (enumerate i ?batch)),
            Inl e,
            filter pending (map (\<lambda>(j, asset). snd (downloadAsset env j asset dest))
                                (enumerate i ?batch)))" ..
    have "download_loop env dest assets i
            = (concat (map (\<lambda>(j, asset). fst (downloadAsset env j asset dest)) (enumerate i ?batch)),
               Inl e,
               filter pending (map (\<lambda>(j, asset). snd (downloadAsset env j asset dest))
                                   (enumerate i ?batch)))"
      using True b by (subst download_loop.simps) simp
    moreover have "\<exists>k. fst x = TDownload k \<and> k < i + BATCH_SIZE * ((j - i) div BATCH_SIZE + 1)"
      if "x \<in> set (concat (map (\<lambda>(j, asset). fst (downloadAsset env j asset dest))
                                  (enumerate i ?batch)))" for x
      using in_batch [of x] that batch_fetches_subset [of env dest i ?batch] bound
      by (meson less_le_trans subsetD)
    ultimately show ?thesis by blast
  next
    case all: True
    have far: "i + BATCH_SIZE \<le> j"
    proof (rule ccontr)
      assume "\<not> i + BATCH_SIZE \<le> j"
      with "1.prems" have "j - i < BATCH_SIZE" and "j - i < length assets - i" and "i + (j - i) = j"
        by arith+
      then have "j - i < length ?batch" and "?batch ! (j - i) = assets ! j"
        by (simp_all add: batch)
      then have "assets ! j \<in> set ?batch" using nth_mem by metis
      with all "1.prems" show False by blast
    qed
    from download_batch_completes [OF all, of env dest i]
    obtain tr where b: "download_batch env dest i ?batch = (tr, Inr (), [])"
      and mtr: "mset tr = mset (concat (map (call_events env dest) (enumerate i ?batch)))"
      by blast
    from "1.IH" [OF True b [symmetric] refl refl far "1.prems"(2,3)]
    obtain tr' e orph where rest: "download_loop env dest assets (i + BATCH_SIZE) = (tr', Inl e, orph)"
      and tids: "\<forall>x \<in> set tr'. \<exists>k. fst x = TDownload k
            \<and> k < i + BATCH_SIZE + BATCH_SIZE * ((j - (i + BATCH_SIZE)) div BATCH_SIZE + 1)"
      by blast
    have eq: "i + BATCH_SIZE + BATCH_SIZE * ((j - (i + BATCH_SIZE)) div BATCH_SIZE + 1)
                = i + BATCH_SIZE * ((j - i) div BATCH_SIZE + 1)"
    proof -
      have d: "(m + BATCH_SIZE) div BATCH_SIZE = m div BATCH_SIZE + 1" for m
        by (simp add: BATCH_SIZE_def)
      from far have "j - i = (j - (i + BATCH_SIZE)) + BATCH_SIZE" by simp
      with d [of "j - (i + BATCH_SIZE)"]
      have "(j - i) div BATCH_SIZE = (j - (i + BATCH_SIZE)) div BATCH_SIZE + 1"
        by metis
      then show ?thesis by simp
    qed
    have "download_loop env dest assets i = (tr @ tr', Inl e, orph)"
      using True b rest by (subst download_loop.simps) simp
    moreover have "\<exists>k. fst x = TDownload k \<and> k < i + BATCH_SIZE * ((j - i) div BATCH_SIZE + 1)"
      if "x \<in> set (tr @ tr')" for x
    proof (cases "x \<in> set tr")
      case True
      then have "x \<in> set (concat (map (call_events env dest) (enumerate i ?batch)))"
        using mset_eq_setD [OF mtr] by simp
      from in_batch [OF this] obtain k where "fst x = TDownload k" "k < i + BATCH_SIZE" by blast
      with bound show ?thesis by (meson less_le_trans)
    next
      case False
      with that have "x \<in> set tr'" by simp
      with tids show ?thesis unfolding eq by blast
    qed
    ultimately show ?thesis by blast
  qed
qed

lemma download_loop_completes_iff:
  "(\<exists>tr orph. download_loop env dest assets i = (tr, Inr (), orph))
     \<longleftrightarrow> (\<forall>a \<in> set (drop i assets). startable a)"
proof
  assume "\<exists>tr orph. download_loop env dest assets i = (tr, Inr (), orph)"
  then obtain tr orph where ok: "download_loop env dest assets i = (tr, Inr (), orph)" by blast
  show "\<forall>a \<in> set (drop i assets). startable a"
  proof (rule ccontr)
    assume "\<not> (\<forall>a \<in> set (drop i assets). startable a)"
    then obtain a where "a \<in> set (drop i assets)" "\<not> startable a" by blast
    then obtain k where "k < length (drop i assets)" "drop i assets ! k = a"
      by (auto simp: in_set_conv_nth)
    then have "i \<le> i + k" "i + k < length assets" "\<not> startable (assets ! (i + k))"
      using \<open>\<not> startable a\<close> by simp_all
    from download_loop_aborts [OF this, of env dest] ok show False by auto
  qed
next
  assume "\<forall>a \<in> set (drop i assets). startable a"
  from download_loop_completes [OF this, of env dest] show "\<exists>tr orph. download_loop env dest assets i = (tr, Inr (), orph)"
    by blast
qed

section \<open>The name of a downloaded file\<close>

text \<open>The derivation as the specification words it: strip the query string, take the
  last path segment.\<close>

definition spec_strip_query :: "string \<Rightarrow> string" where
  "spec_strip_query u = takeWhile (\<lambda>c. c \<noteq> CHR ''?'') u"

definition spec_last_segment :: "string \<Rightarrow> string" where
  "spec_last_segment u = rev (takeWhile (\<lambda>c. c \<noteq> CHR ''/'') (rev u))"

definition example_asset :: jsval where
  "example_asset =
     JObj [(''url'', JStr ''https://cdn.example/img/abc123.png?auth=xyz''),
           (''filename'', JStr ''My Photo.png'')]"

lemma js_split_not_Nil: "js_split sep s \<noteq> []"
  by (induction s) (auto split: list.splits)

lemma js_split_no_sep: "sep \<notin> set s \<Longrightarrow> js_split sep s = [s]"
  by (induction s) auto

lemma js_split_at_sep: "js_split sep (xs @ sep # ys) = js_split sep xs @ js_split sep ys"
  by (induction xs) (auto split: list.splits simp: js_split_not_Nil)

lemma takeWhile_no_sep: "sep \<notin> set s \<Longrightarrow> takeWhile (\<lambda>c. c \<noteq> sep) s = s"
  by (induction s) auto

lemma hd_js_split: "hd (js_split sep s) = takeWhile (\<lambda>c. c \<noteq> sep) s"
proof (cases "sep \<in> set s")
  case False
  then show ?thesis by (simp add: js_split_no_sep takeWhile_no_sep)
next
  case True
  from split_list_first [OF this] obtain xs ys where s: "s = xs @ sep # ys" and xs: "sep \<notin> set xs"
    by blast
  from xs have "takeWhile (\<lambda>c. c \<noteq> sep) (xs @ sep # ys) = xs"
    by (induction xs) auto
  with xs show ?thesis unfolding s by (simp add: js_split_at_sep js_split_no_sep)
qed

lemma last_js_split: "last (js_split sep s) = rev (takeWhile (\<lambda>c. c \<noteq> sep) (rev s))"
proof (cases "sep \<in> set s")
  case False
  then have "sep \<notin> set (rev s)" by simp
  from takeWhile_no_sep [OF this] have "rev (takeWhile (\<lambda>c. c \<noteq> sep) (rev s)) = s"
    by (simp only: rev_rev_ident)
  with False show ?thesis by (simp add: js_split_no_sep)
next
  case True
  from split_list_last [OF this] obtain xs ys where s: "s = xs @ sep # ys" and ys: "sep \<notin> set ys"
    by blast
  from ys have "takeWhile (\<lambda>c. c \<noteq> sep) (rev ys @ sep # rev xs) = rev ys"
    by (induction ys rule: rev_induct) auto
  with ys show ?thesis unfolding s by (simp add: js_split_at_sep js_split_no_sep js_split_not_Nil)
qed

lemma canonical_url_string:
  "get_prop asset ''url'' = Inr (JStr u) \<Longrightarrow> canonical_url asset = Inr (spec_strip_query u)"
  using hd_js_split [of "CHR ''?''" u] js_split_not_Nil [of "CHR ''?''" u]
  by (auto simp: canonical_url_def spec_strip_query_def split: list.splits)

lemma hashed_filename_last_segment:
  "hashed_filename s = decodeURIComponent (spec_last_segment s)"
  using last_js_split [of "CHR ''/''" s] js_split_not_Nil [of "CHR ''/''" s]
  by (auto simp: hashed_filename_def spec_last_segment_def split: list.splits)

lemma download_write_path:
  assumes "(t, Fs (WriteFile p b) r) \<in> set (fst (snd (downloadAsset env i asset dest)))"
    and "canonical_url asset = Inr s"
  shows "\<exists>name. hashed_filename s = Inr name \<and> p = path_join dest name"
  using assms
  by (auto simp: downloadAsset_def download_try_def download_catch_def async_defs
           split: sum.splits option.splits if_splits)

section \<open>The run as a whole\<close>

subsection \<open>The manifest step\<close>

lemma logFailedAssets_settles: "snd (logFailedAssets env this) = Inr ()"
  by (simp add: logFailedAssets_def async_defs split: option.splits)

lemma logFailedAssets_task: "e \<in> set (fst (logFailedAssets env this)) \<Longrightarrow> fst e = TDownloadAssets"
  by (auto simp: logFailedAssets_def async_defs split: option.splits if_splits)

lemma logFailedAssets_no_push: "pushes (fst (logFailedAssets env this)) = []"
  by (simp add: logFailedAssets_def async_defs split: option.splits)

lemma logFailedAssets_no_write: "filter written (fst (logFailedAssets env this)) = []"
  by (simp add: logFailedAssets_def async_defs split: option.splits)

lemma logFailedAssets_empty: "failedAssets this = [] \<Longrightarrow> fst (logFailedAssets env this) = []"
  by (simp add: logFailedAssets_def async_defs)

lemma logFailedAssets_manifest:
  assumes "(t, Fs (OutputJson p c) r) \<in> set (fst (logFailedAssets env this))"
  shows "failedAssets this \<noteq> [] \<and> p = createExportPath (config this) ''failed-assets.json''
           \<and> c = JArr (failedAssets this)"
  using assms by (auto simp: logFailedAssets_def async_defs split: option.splits if_splits)

lemma logFailedAssets_written:
  assumes "failedAssets this \<noteq> []"
    and "fs env TDownloadAssets (EnsureDir (root this)) = None"
    and "fs env TDownloadAssets
           (OutputJson (createExportPath (config this) ''failed-assets.json'')
                       (JArr (failedAssets this))) = None"
  shows "fst (logFailedAssets env this)
           = [(TDownloadAssets, Fs (EnsureDir (root this)) None),
              (TDownloadAssets,
               Fs (OutputJson (createExportPath (config this) ''failed-assets.json'')
                              (JArr (failedAssets this))) None),
              (TDownloadAssets,
               Log INFO (FailedAssetsLogCreated (length (failedAssets this))
                           (createExportPath (config this) ''failed-assets.json'')))]"
  using assms by (simp add: logFailedAssets_def async_defs)

subsection \<open>downloadAssets on a given list\<close>

definition count_line :: "PrismicBackup \<Rightarrow> jsval list \<Rightarrow> tid \<times> event" where
  "count_line this assets =
     (TDownloadAssets,
      Log INFO (DownloadedCount (int (length assets) - int (length (failedAssets this)))
                                (length assets)))"

lemma after_fields [simp]:
  "failedAssets (after this tr) = failedAssets this @ pushes tr"
  "config (after this tr) = config this"
  "root (after this tr) = root this"
  by (simp_all add: after_def)

lemma after_append_no_push: "pushes tr' = [] \<Longrightarrow> after this (tr @ tr') = after this tr"
  by (simp add: after_def)

lemma downloadAssets_given:
  "downloadAssets fuel env this (Some assets)
     = Some (download_guard this (download_all env this assets))"
  by (simp add: downloadAssets_def)

lemma download_loop_Nil: "download_loop env dest [] i = ([], Inr (), [])"
  by (subst download_loop.simps) simp

lemma downloadAssets_empty:
  "downloadAssets fuel env this (Some [])
     = Some \<lparr>this_after = this, effects = [(TDownloadAssets, Log WARN NoAssetsFound)],
             settled = Inr (), detached = []\<rparr>"
  by (simp add: downloadAssets_def download_all_def download_guard_def log_def after_def)

lemma downloadAssets_completes:
  assumes "download_loop env (createExportPath (config this) ''assets'') assets 0 = (tr, Inr (), orph)"
    and "assets \<noteq> []"
  shows "downloadAssets fuel env this (Some assets)
     = Some \<lparr>this_after = after this tr,
             effects = tr @ fst (logFailedAssets env (after this tr))
                          @ [count_line (after this tr) assets],
             settled = Inr (), detached = orph\<rparr>"
proof -
  obtain man where man: "logFailedAssets env (after this tr) = (man, Inr ())"
    using logFailedAssets_settles [of env "after this tr"]
    by (cases "logFailedAssets env (after this tr)") auto
  then have "pushes man = []"
    using logFailedAssets_no_push [of env "after this tr"] by simp
  then have "after this (tr @ man @ [count_line (after this tr) assets]) = after this tr"
    by (simp add: after_def count_line_def)
  with assms man show ?thesis
    by (simp add: downloadAssets_def download_all_def download_guard_def and_then_def log_def
                  count_line_def)
qed

lemma downloadAssets_aborts:
  assumes "download_loop env (createExportPath (config this) ''assets'') assets 0 = (tr, Inl e, orph)"
  shows "downloadAssets fuel env this (Some assets)
     = Some \<lparr>this_after = after this tr,
             effects = tr @ [(TDownloadAssets, Log ERROR (AssetsDownloadFailed (message e)))],
             settled = Inr (), detached = orph\<rparr>"
proof -
  from assms have "assets \<noteq> []" by (auto simp: download_loop_Nil)
  with assms show ?thesis
    by (simp add: downloadAssets_def download_all_def download_guard_def log_def)
qed


lemma by_task_append [simp]: "by_task t (xs @ ys) = by_task t xs @ by_task t ys"
  by (simp add: by_task_def)

lemma by_task_other:
  "\<forall>e \<in> set xs. fst e \<noteq> t \<Longrightarrow> by_task t xs = []"
  by (auto simp: by_task_def filter_empty_conv)

lemma by_task_manifest [simp]: "by_task (TDownload j) (fst (logFailedAssets env this)) = []"
  by (intro by_task_other ballI) (auto dest!: logFailedAssets_task)

lemma by_task_count_line [simp]: "by_task (TDownload j) [count_line this assets] = []"
  by (simp add: by_task_def count_line_def)

lemma pushes_count_line [simp]: "pushes [count_line this assets] = []"
  by (simp add: count_line_def)

lemma written_count_line [simp]: "\<not> written (count_line this assets)"
  by (simp add: count_line_def)


subsection \<open>Example worlds\<close>

definition cfg0 :: config where
  "cfg0 = \<lparr>repositoryName = ''repo'', accessToken = ''read'', permanentToken = ''write''\<rparr>"

definition response_ok :: response where
  "response_ok = \<lparr>ok = True, status = 200, statusText = ''OK'',
                   json = Inr (JArr []), arrayBuffer = Inr ''bytes''\<rparr>"

definition response_404 :: response where
  "response_404 = \<lparr>ok = False, status = 404, statusText = ''Not Found'',
                    json = Inr JNull, arrayBuffer = Inr []\<rparr>"

text \<open>A world in which every call succeeds and nothing is there to export, and one in
  which every asset request is answered with status 404.\<close>

definition env_ok :: env where
  "env_ok = \<lparr>getRepository = Inr (JObj []), dangerouslyGetAll = Inr [], getTags = Inr [],
             fetchCustomTypes = Inr response_ok, fetchSlices = Inr response_ok,
             fetchAssetsPage = (\<lambda>n. Inr (response_ok\<lparr>json := Inr (JObj [(''items'', JArr [])])\<rparr>)),
             fetchAsset = (\<lambda>i. Inr response_ok), fs = (\<lambda>t op. None),
             batch_sched = (\<lambda>i. []), docs_sched = [], run_sched = []\<rparr>"

definition env_404 :: env where
  "env_404 = env_ok\<lparr>fetchAsset := (\<lambda>i. Inr response_404)\<rparr>"

definition asset_a :: jsval where
  "asset_a = JObj [(''url'', JStr ''https://cdn.example/img/a.png?auth=1''), (''filename'', JStr ''A.png'')]"

definition asset_b :: jsval where
  "asset_b = JObj [(''url'', JStr ''https://cdn.example/img/b.png''), (''filename'', JStr ''B.png'')]"

lemmas eval_defs =
  downloadAssets_def download_guard_def download_all_def download_batch_def
  enumerate_eq_zip BATCH_SIZE_def slice_def downloadAsset_def canonical_url_def hashed_filename_def
  decodeURIComponent_def download_try_def download_catch_def async_defs
  pending_def advance_def pick_def createExportPath_def new_PrismicBackup_def
  path_join_def after_def pushes_def logFailedAssets_def api_returned_def digit_char_def
  cfg0_def response_ok_def response_404_def env_ok_def env_404_def asset_a_def asset_b_def

lemma first_run:
  "downloadAssets 0 env_404 (new_PrismicBackup cfg0) (Some [asset_a])
     = Some \<lparr>this_after = (new_PrismicBackup cfg0)\<lparr>failedAssets := [asset_a]\<rparr>,
             effects =
               [(TDownload 0, Fetch ''https://cdn.example/img/a.png''),
                (TDownload 0, Push asset_a),
                (TDownload 0, Log ERROR (DownloadFailed (JStr ''A.png'') ''API returned 404 Not Found'')),
                (TDownloadAssets, Fs (EnsureDir [''./'', ''repo'', []]) None),
                (TDownloadAssets, Fs (OutputJson [''./'', ''repo'', ''failed-assets.json''] (JArr [asset_a])) None),
                (TDownloadAssets, Log INFO (FailedAssetsLogCreated 1 [''./'', ''repo'', ''failed-assets.json''])),
                (TDownloadAssets, Log INFO (DownloadedCount 0 1))],
             settled = Inr (), detached = []\<rparr>"
  by (simp add: eval_defs download_loop.simps promise_all.simps show_nat.simps)

subsection \<open>The file a download writes\<close>

lemma downloadAsset_started:
  assumes "canonical_url asset = Inr s" and "hashed_filename s = Inr name"
  shows "downloadAsset env i asset dest
           = ([(TDownload i, Fetch s)],
              try_catch (download_try env i asset name dest) (download_catch i asset))"
  using assms by (simp add: downloadAsset_def)

lemma download_try_succeeds:
  assumes "fetchAsset env i = Inr r" and "ok r" and "arrayBuffer r = Inr bytes"
    and "fs env (TDownload i) (EnsureDir dest) = None"
    and "fs env (TDownload i) (WriteFile (path_join dest name) bytes) = None"
    and "get_prop asset ''filename'' = Inr fname"
  shows "try_catch (download_try env i asset name dest) (download_catch i asset)
           = ([(TDownload i, Fs (EnsureDir dest) None),
               (TDownload i, Fs (WriteFile (path_join dest name) bytes) None),
               (TDownload i, Log INFO (Downloaded fname dest))], Inr ())"
  using assms by (simp add: download_try_def async_defs)

text \<open>
  Claim C4. For a descriptor whose \<open>url\<close> is a string, the canonical URL is the text
  before the first \<open>?\<close>, and the name of the file is the percent-decoding of the text after
  the last \<open>/\<close> of the canonical URL. When that decoding exists, \<open>downloadAsset\<close> requests
  the canonical URL, and when the request is answered with a success status and a body and
  the two filesystem calls succeed, what it does is: ensure the destination, write the
  body to the file of that name under the destination, log the success. The name under
  which it writes is a function of the URL alone: the descriptor's own \<open>filename\<close> appears
  in the log line only. Whatever happens, every file the download writes lies at that name
  under the destination. For \<open>https://cdn.example/img/abc123.png?auth=xyz\<close> with the
  filename \<open>My Photo.png\<close> the name is \<open>abc123.png\<close>.
\<close>

theorem C4_filename_from_url:
  assumes "get_prop asset ''url'' = Inr (JStr u)"
  shows "canonical_url asset = Inr (spec_strip_query u)
     \<and> hashed_filename (spec_strip_query u)
           = decodeURIComponent (spec_last_segment (spec_strip_query u))
     \<and> (\<forall>name. decodeURIComponent (spec_last_segment (spec_strip_query u)) = Inr name \<longrightarrow>
           fst (downloadAsset env i asset dest) = [(TDownload i, Fetch (spec_strip_query u))]
           \<and> (\<forall>r bytes.
                 fetchAsset env i = Inr r \<and> ok r \<and> arrayBuffer r = Inr bytes
                 \<and> fs env (TDownload i) (EnsureDir dest) = None
                 \<and> fs env (TDownload i) (WriteFile (path_join dest name) bytes) = None \<longrightarrow>
                 (\<exists>fname. get_prop asset ''filename'' = Inr fname
                    \<and> snd (downloadAsset env i asset dest)
                        = ([(TDownload i, Fs (EnsureDir dest) None),
                            (TDownload i, Fs (WriteFile (path_join dest name) bytes) None),
                            (TDownload i, Log INFO (Downloaded fname dest))], Inr ()))))
     \<and> (\<forall>t p b r. (t, Fs (WriteFile p b) r) \<in> set (fst (snd (downloadAsset env i asset dest)))
           \<longrightarrow> (\<exists>name. decodeURIComponent (spec_last_segment (spec_strip_query u)) = Inr name
                  \<and> p = path_join dest name))
     \<and> canonical_url example_asset = Inr ''https://cdn.example/img/abc123.png''
     \<and> hashed_filename ''https://cdn.example/img/abc123.png'' = Inr ''abc123.png''
     \<and> (\<forall>t p b r. (t, Fs (WriteFile p b) r)
                       \<in> set (fst (snd (downloadAsset env i example_asset dest)))
           \<longrightarrow> p = path_join dest ''abc123.png'')"
proof -
  have c: "canonical_url asset = Inr (spec_strip_query u)"
    using assms by (rule canonical_url_string)
  have h: "hashed_filename (spec_strip_query u)
             = decodeURIComponent (spec_last_segment (spec_strip_query u))"
    by (rule hashed_filename_last_segment)
  have s: "fst (downloadAsset env i asset dest) = [(TDownload i, Fetch (spec_strip_query u))]
           \<and> (\<forall>r bytes.
                 fetchAsset env i = Inr r \<and> ok r \<and> arrayBuffer r = Inr bytes
                 \<and> fs env (TDownload i) (EnsureDir dest) = None
                 \<and> fs env (TDownload i) (WriteFile (path_join dest name) bytes) = None \<longrightarrow>
                 (\<exists>fname. get_prop asset ''filename'' = Inr fname
                    \<and> snd (downloadAsset env i asset dest)
                        = ([(TDownload i, Fs (EnsureDir dest) None),
                            (TDownload i, Fs (WriteFile (path_join dest name) bytes) None),
                            (TDownload i, Log INFO (Downloaded fname dest))], Inr ())))"
    if d: "decodeURIComponent (spec_last_segment (spec_strip_query u)) = Inr name" for name
  proof -
    from d h have n: "hashed_filename (spec_strip_query u) = Inr name" by simp
    note st = downloadAsset_started [OF c n, of env i dest]
    from canonical_url_filename [OF c] obtain fname where
      fname: "get_prop asset ''filename'' = Inr fname" ..
    have "snd (downloadAsset env i asset dest)
            = ([(TDownload i, Fs (EnsureDir dest) None),
                (TDownload i, Fs (WriteFile (path_join dest name) bytes) None),
                (TDownload i, Log INFO (Downloaded fname dest))], Inr ())"
      if "fetchAsset env i = Inr r" "ok r" "arrayBuffer r = Inr bytes"
         "fs env (TDownload i) (EnsureDir dest) = None"
         "fs env (TDownload i) (WriteFile (path_join dest name) bytes) = None" for r bytes
      using download_try_succeeds [OF that fname] st by simp
    with fname st show ?thesis by auto
  qed
  have w: "\<exists>name. decodeURIComponent (spec_last_segment (spec_strip_query u)) = Inr name
                  \<and> p = path_join dest name"
    if "(t, Fs (WriteFile p b) r) \<in> set (fst (snd (downloadAsset env i asset dest)))" for t p b r
    using download_write_path [OF that c] by (simp add: hashed_filename_last_segment)
  have ec: "canonical_url example_asset = Inr ''https://cdn.example/img/abc123.png''"
    by (simp add: example_asset_def canonical_url_def)
  have eh: "hashed_filename ''https://cdn.example/img/abc123.png'' = Inr ''abc123.png''"
    by (simp add: hashed_filename_def decodeURIComponent_def)
  have ew: "p = path_join dest ''abc123.png''"
    if "(t, Fs (WriteFile p b) r) \<in> set (fst (snd (downloadAsset env i example_asset dest)))"
    for t p b r
    using download_write_path [OF that ec] eh by simp
  from s have s': "\<forall>name. decodeURIComponent (spec_last_segment (spec_strip_query u)) = Inr name \<longrightarrow>
           fst (downloadAsset env i asset dest) = [(TDownload i, Fetch (spec_strip_query u))]
           \<and> (\<forall>r bytes.
                 fetchAsset env i = Inr r \<and> ok r \<and> arrayBuffer r = Inr bytes
                 \<and> fs env (TDownload i) (EnsureDir dest) = None
                 \<and> fs env (TDownload i) (WriteFile (path_join dest name) bytes) = None \<longrightarrow>
                 (\<exists>fname. get_prop asset ''filename'' = Inr fname
                    \<and> snd (downloadAsset env i asset dest)
                        = ([(TDownload i, Fs (EnsureDir dest) None),
                            (TDownload i, Fs (WriteFile (path_join dest name) bytes) None),
                            (TDownload i, Log INFO (Downloaded fname dest))], Inr ())))"
    by blast
  from w have w': "\<forall>t p b r. (t, Fs (WriteFile p b) r) \<in> set (fst (snd (downloadAsset env i asset dest)))
           \<longrightarrow> (\<exists>name. decodeURIComponent (spec_last_segment (spec_strip_query u)) = Inr name
                  \<and> p = path_join dest name)"
    by blast
  from ew have ew': "\<forall>t p b r. (t, Fs (WriteFile p b) r)
                       \<in> set (fst (snd (downloadAsset env i example_asset dest)))
           \<longrightarrow> p = path_join dest ''abc123.png''"
    by blast
  show ?thesis
    by (intro conjI c h s' w' ec eh ew')
qed

theorem C4_filename_from_url_witness:
  "get_prop example_asset ''url'' = Inr (JStr ''https://cdn.example/img/abc123.png?auth=xyz'')
   \<and> get_prop example_asset ''filename'' = Inr (JStr ''My Photo.png'')
   \<and> canonical_url example_asset = Inr ''https://cdn.example/img/abc123.png''
   \<and> hashed_filename ''https://cdn.example/img/abc123.png'' = Inr ''abc123.png''
   \<and> downloadAsset env_ok 0 example_asset [''./'', ''repo'', ''assets'']
       = ([(TDownload 0, Fetch ''https://cdn.example/img/abc123.png'')],
          ([(TDownload 0, Fs (EnsureDir [''./'', ''repo'', ''assets'']) None),
            (TDownload 0,
             Fs (WriteFile [''./'', ''repo'', ''assets'', ''abc123.png''] ''bytes'') None),
            (TDownload 0,
             Log INFO (Downloaded (JStr ''My Photo.png'') [''./'', ''repo'', ''assets'']))],
           Inr ()))"
proof -
  let ?u = "''https://cdn.example/img/abc123.png?auth=xyz''"
  let ?dest = "[''./'', ''repo'', ''assets'']"
  have url: "get_prop example_asset ''url'' = Inr (JStr ?u)"
    by (simp add: example_asset_def)
  have fname: "get_prop example_asset ''filename'' = Inr (JStr ''My Photo.png'')"
    by (simp add: example_asset_def)
  note inst = C4_filename_from_url [OF url, of env_ok 0 ?dest]
  note c1 = inst [THEN conjunct1]
  note r1 = inst [THEN conjunct2]
  note h1 = r1 [THEN conjunct1]
  note r2 = r1 [THEN conjunct2]
  note s1 = r2 [THEN conjunct1]
  note r3 = r2 [THEN conjunct2]
  note r4 = r3 [THEN conjunct2]
  note ec = r4 [THEN conjunct1]
  note r5 = r4 [THEN conjunct2]
  note eh = r5 [THEN conjunct1]
  from c1 ec have q: "spec_strip_query ?u = ''https://cdn.example/img/abc123.png''"
    by simp
  from h1 eh have d: "decodeURIComponent (spec_last_segment (spec_strip_query ?u)) = Inr ''abc123.png''"
    unfolding q by simp
  have w: "fetchAsset env_ok 0 = Inr response_ok \<and> ok response_ok
           \<and> arrayBuffer response_ok = Inr ''bytes''
           \<and> fs env_ok (TDownload 0) (EnsureDir ?dest) = None
           \<and> fs env_ok (TDownload 0) (WriteFile (path_join ?dest ''abc123.png'') ''bytes'') = None"
    by (simp add: env_ok_def response_ok_def)
  from s1 d have a: "fst (downloadAsset env_ok 0 example_asset ?dest)
                         = [(TDownload 0, Fetch (spec_strip_query ?u))]"
    by blast
  from s1 d w obtain fn where "get_prop example_asset ''filename'' = Inr fn"
    and "snd (downloadAsset env_ok 0 example_asset ?dest)
           = ([(TDownload 0, Fs (EnsureDir ?dest) None),
               (TDownload 0, Fs (WriteFile (path_join ?dest ''abc123.png'') ''bytes'') None),
               (TDownload 0, Log INFO (Downloaded fn ?dest))], Inr ())"
    by blast
  with fname a q have "downloadAsset env_ok 0 example_asset ?dest
       = ([(TDownload 0, Fetch ''https://cdn.example/img/abc123.png'')],
          ([(TDownload 0, Fs (EnsureDir ?dest) None),
            (TDownload 0, Fs (WriteFile [''./'', ''repo'', ''assets'', ''abc123.png''] ''bytes'') None),
            (TDownload 0, Log INFO (Downloaded (JStr ''My Photo.png'') ?dest))],
           Inr ()))"
    by (simp add: prod_eq_iff path_join_def)
  with url fname ec eh show ?thesis by simp
qed

subsection \<open>Accounting of a run\<close>

definition run1 :: outcome where
  "run1 = \<lparr>this_after = (new_PrismicBackup cfg0)\<lparr>failedAssets := [asset_a]\<rparr>,
            effects =
              [(TDownload 0, Fetch ''https://cdn.example/img/a.png''),
               (TDownload 0, Push asset_a),
               (TDownload 0,
                Log ERROR (DownloadFailed (JStr ''A.png'') ''API returned 404 Not Found'')),
               (TDownloadAssets, Fs (EnsureDir [''./'', ''repo'', []]) None),
               (TDownloadAssets,
                Fs (OutputJson [''./'', ''repo'', ''failed-assets.json''] (JArr [asset_a])) None),
               (TDownloadAssets,
                Log INFO (FailedAssetsLogCreated 1 [''./'', ''repo'', ''failed-assets.json''])),
               (TDownloadAssets, Log INFO (DownloadedCount 0 1))],
            settled = Inr (), detached = []\<rparr>"

definition run2 :: outcome where
  "run2 = \<lparr>this_after = (new_PrismicBackup cfg0)\<lparr>failedAssets := [asset_a]\<rparr>,
            effects =
              [(TDownload 0, Fetch ''https://cdn.example/img/b.png''),
               (TDownload 0, Fs (EnsureDir [''./'', ''repo'', ''assets'']) None),
               (TDownload 0,
                Fs (WriteFile [''./'', ''repo'', ''assets'', ''b.png''] ''bytes'') None),
               (TDownload 0, Log INFO (Downloaded (JStr ''B.png'') [''./'', ''repo'', ''assets''])),
               (TDownloadAssets, Fs (EnsureDir [''./'', ''repo'', []]) None),
               (TDownloadAssets,
                Fs (OutputJson [''./'', ''repo'', ''failed-assets.json''] (JArr [asset_a])) None),
               (TDownloadAssets,
                Log INFO (FailedAssetsLogCreated 1 [''./'', ''repo'', ''failed-assets.json''])),
               (TDownloadAssets, Log INFO (DownloadedCount 0 1))],
            settled = Inr (), detached = []\<rparr>"

lemma run1_is:
  "downloadAssets 0 env_404 (new_PrismicBackup cfg0) (Some [asset_a]) = Some run1"
  by (simp add: run1_def eval_defs download_loop.simps promise_all.simps show_nat.simps)

lemma run2_is:
  "downloadAssets 0 env_ok (this_after run1) (Some [asset_b]) = Some run2"
  by (simp add: run1_def run2_def eval_defs download_loop.simps promise_all.simps)

definition run3 :: outcome where
  "run3 = \<lparr>this_after = (new_PrismicBackup cfg0)\<lparr>failedAssets := [asset_a, asset_a]\<rparr>,
            effects =
              [(TDownload 0, Fetch ''https://cdn.example/img/a.png''),
               (TDownload 0, Push asset_a),
               (TDownload 0,
                Log ERROR (DownloadFailed (JStr ''A.png'') ''API returned 404 Not Found'')),
               (TDownloadAssets, Fs (EnsureDir [''./'', ''repo'', []]) None),
               (TDownloadAssets,
                Fs (OutputJson [''./'', ''repo'', ''failed-assets.json'']
                      (JArr [asset_a, asset_a])) None),
               (TDownloadAssets,
                Log INFO (FailedAssetsLogCreated 2 [''./'', ''repo'', ''failed-assets.json''])),
               (TDownloadAssets, Log INFO (DownloadedCount (- 1) 1))],
            settled = Inr (), detached = []\<rparr>"

lemma run3_is:
  "downloadAssets 0 env_404 (this_after run1) (Some [asset_a]) = Some run3"
  by (simp add: run1_def run3_def eval_defs download_loop.simps promise_all.simps show_nat.simps)

text \<open>
  Claim C2, where the code departs from it: on an object that is used again. The
  accumulator is a field of the object that no call empties, and the count of successes is
  taken against the whole of it. A first run over \<open>[a]\<close>, whose download is answered with
  status 404, completes with one entry and nothing left under way. A second run on the same
  object over \<open>[b]\<close>, whose download succeeds, completes with one file written and one
  entry for a list of length one; the entry is no descriptor of that list, the manifest is
  written again and the count line says 0 of 1. A second run over \<open>[a]\<close>, failing again,
  completes with two entries for a list of length one and the count line \<open>-1\<close> of 1.
\<close>

theorem C2_reused_instance_miscounts:
  "downloadAssets 0 env_404 (new_PrismicBackup cfg0) (Some [asset_a]) = Some run1
   \<and> detached run1 = []
   \<and> downloadAssets 0 env_ok (this_after run1) (Some [asset_b]) = Some run2
   \<and> length (filter written (effects run2)) = 1
   \<and> failedAssets (this_after run2) = [asset_a]
   \<and> length (filter written (effects run2)) + length (failedAssets (this_after run2))
        \<noteq> length [asset_b]
   \<and> asset_a \<notin> set [asset_b]
   \<and> (TDownloadAssets, Log INFO (DownloadedCount 0 1)) \<in> set (effects run2)
   \<and> downloadAssets 0 env_404 (this_after run1) (Some [asset_a]) = Some run3
   \<and> length (filter written (effects run3)) = 0
   \<and> failedAssets (this_after run3) = [asset_a, asset_a]
   \<and> (TDownloadAssets, Log INFO (DownloadedCount (- 1) 1)) \<in> set (effects run3)"
  using run1_is run2_is run3_is
  by (simp add: run1_def run2_def run3_def asset_a_def asset_b_def)

subsection \<open>The failure manifest of a run\<close>

lemma call_events_kinds:
  assumes "(t, ev) \<in> set (call_events env dest (j, a))"
  shows "t = TDownload j \<and> (\<forall>p c r. ev \<noteq> Fs (OutputJson p c) r)"
  using assms
  by (auto simp: call_events_def downloadAsset_def download_try_def download_catch_def async_defs
           split: sum.splits option.splits if_splits)

lemma calls_from_kinds:
  assumes "(t, ev) \<in> calls_from env dest assets i"
  shows "(\<exists>j. t = TDownload j) \<and> (\<forall>p c r. ev \<noteq> Fs (OutputJson p c) r)"
proof -
  from assms obtain x where "(t, ev) \<in> set (call_events env dest x)"
    by (auto simp: calls_from_def)
  then show ?thesis using call_events_kinds [of t ev env dest "fst x" "snd x"] by auto
qed

lemma download_loop_kinds:
  assumes "download_loop env dest assets i = (tr, r, orph)" and "(t, ev) \<in> set tr"
  shows "(\<exists>j. t = TDownload j) \<and> (\<forall>p c r. ev \<noteq> Fs (OutputJson p c) r)"
  using download_loop_effects [of env dest assets i] assms calls_from_kinds [of t ev env dest assets i]
  by auto

definition tr1 :: trace where
  "tr1 = [(TDownload 0, Fetch ''https://cdn.example/img/a.png''),
          (TDownload 0, Push asset_a),
          (TDownload 0,
           Log ERROR (DownloadFailed (JStr ''A.png'') ''API returned 404 Not Found''))]"

lemma loop1_is:
  "download_loop env_404 (createExportPath (config (new_PrismicBackup cfg0)) ''assets'') [asset_a] 0
     = (tr1, Inr (), [])"
  by (simp add: tr1_def eval_defs download_loop.simps promise_all.simps show_nat.simps)

text \<open>
  Claim C3. Take a run of \<open>downloadAssets\<close> over a non-empty list whose chunks all
  complete. A write of a JSON file occurs in it only when the failed-asset sequence is
  non-empty, and then it is the write of \<open>failed-assets.json\<close> under the export root with
  exactly the entries of the sequence as its array. When the sequence is empty the step
  touches no file. When it is non-empty and the two filesystem calls of the step succeed
  (ensuring the root, writing the file), the manifest is written; a failing call is logged
  by the step's own handler instead.
\<close>

theorem C3_manifest_iff_failures:
  assumes "download_loop env (createExportPath (config this) ''assets'') assets 0 = (tr, Inr (), orph)"
    and "assets \<noteq> []"
  shows "\<exists>out. downloadAssets fuel env this (Some assets) = Some out
     \<and> (\<forall>t p c r. (t, Fs (OutputJson p c) r) \<in> set (effects out) \<longrightarrow>
           failedAssets (this_after out) \<noteq> []
           \<and> t = TDownloadAssets
           \<and> p = createExportPath (config this) ''failed-assets.json''
           \<and> c = JArr (failedAssets (this_after out)))
     \<and> (failedAssets (this_after out) = [] \<longrightarrow>
           (\<forall>op r. (TDownloadAssets, Fs op r) \<notin> set (effects out)))
     \<and> (failedAssets (this_after out) \<noteq> []
          \<and> fs env TDownloadAssets (EnsureDir (root this)) = None
          \<and> fs env TDownloadAssets
                (OutputJson (createExportPath (config this) ''failed-assets.json'')
                            (JArr (failedAssets (this_after out)))) = None
          \<longrightarrow> (TDownloadAssets,
                Fs (OutputJson (createExportPath (config this) ''failed-assets.json'')
                               (JArr (failedAssets (this_after out)))) None)
                 \<in> set (effects out))"
proof -
  let ?after = "after this tr"
  let ?man = "fst (logFailedAssets env ?after)"
  let ?out = "\<lparr>this_after = ?after,
               effects = tr @ ?man @ [count_line ?after assets],
               settled = Inr (), detached = orph\<rparr>"
  have out: "downloadAssets fuel env this (Some assets) = Some ?out"
    using downloadAssets_completes [OF assms] .
  have a: "failedAssets (this_after ?out) \<noteq> [] \<and> t = TDownloadAssets
           \<and> p = createExportPath (config this) ''failed-assets.json''
           \<and> c = JArr (failedAssets (this_after ?out))"
    if "(t, Fs (OutputJson p c) r) \<in> set (effects ?out)" for t p c r
  proof -
    from that download_loop_kinds [OF assms(1), of t "Fs (OutputJson p c) r"]
    have m: "(t, Fs (OutputJson p c) r) \<in> set ?man" by (auto simp: count_line_def)
    from logFailedAssets_manifest [OF m] logFailedAssets_task [OF m] show ?thesis by simp
  qed
  have b: "(TDownloadAssets, Fs op r) \<notin> set (effects ?out)"
    if "failedAssets (this_after ?out) = []" for op r
    using that download_loop_kinds [OF assms(1), of TDownloadAssets "Fs op r"]
          logFailedAssets_empty [of ?after env]
    by (auto simp: count_line_def)
  have c: "(TDownloadAssets,
                Fs (OutputJson (createExportPath (config this) ''failed-assets.json'')
                               (JArr (failedAssets (this_after ?out)))) None)
                 \<in> set (effects ?out)"
    if "failedAssets (this_after ?out) \<noteq> []"
      and "fs env TDownloadAssets (EnsureDir (root this)) = None"
      and "fs env TDownloadAssets
                (OutputJson (createExportPath (config this) ''failed-assets.json'')
                            (JArr (failedAssets (this_after ?out)))) = None"
    using logFailedAssets_written [of ?after env] that by simp
  have a': "\<forall>t p c r. (t, Fs (OutputJson p c) r) \<in> set (effects ?out) \<longrightarrow>
           failedAssets (this_after ?out) \<noteq> []
           \<and> t = TDownloadAssets
           \<and> p = createExportPath (config this) ''failed-assets.json''
           \<and> c = JArr (failedAssets (this_after ?out))"
    by (intro allI impI) (rule a)
  have b': "failedAssets (this_after ?out) = [] \<longrightarrow>
           (\<forall>op r. (TDownloadAssets, Fs op r) \<notin> set (effects ?out))"
    by (intro allI impI) (rule b)
  have c': "failedAssets (this_after ?out) \<noteq> []
          \<and> fs env TDownloadAssets (EnsureDir (root this)) = None
          \<and> fs env TDownloadAssets
                (OutputJson (createExportPath (config this) ''failed-assets.json'')
                            (JArr (failedAssets (this_after ?out)))) = None
          \<longrightarrow> (TDownloadAssets,
                Fs (OutputJson (createExportPath (config this) ''failed-assets.json'')
                               (JArr (failedAssets (this_after ?out)))) None)
                 \<in> set (effects ?out)"
    using c by (intro impI) (elim conjE)
  show ?thesis
    by (rule exI [of _ ?out]) (intro conjI out a' b' c')
qed

theorem C3_manifest_iff_failures_witness:
  "download_loop env_404 (createExportPath (config (new_PrismicBackup cfg0)) ''assets'') [asset_a] 0
     = (tr1, Inr (), [])
   \<and> [asset_a] \<noteq> []
   \<and> (\<exists>out. downloadAssets 0 env_404 (new_PrismicBackup cfg0) (Some [asset_a]) = Some out
         \<and> failedAssets (this_after out) = [asset_a]
         \<and> (TDownloadAssets,
             Fs (OutputJson (createExportPath cfg0 ''failed-assets.json'') (JArr [asset_a])) None)
              \<in> set (effects out))"
proof -
  have ne: "[asset_a] \<noteq> []" by simp
  from C3_manifest_iff_failures [OF loop1_is ne, of 0]
  obtain out where out: "downloadAssets 0 env_404 (new_PrismicBackup cfg0) (Some [asset_a]) = Some out"
    and w: "failedAssets (this_after out) \<noteq> []
          \<and> fs env_404 TDownloadAssets (EnsureDir (root (new_PrismicBackup cfg0))) = None
          \<and> fs env_404 TDownloadAssets
                (OutputJson (createExportPath (config (new_PrismicBackup cfg0)) ''failed-assets.json'')
                            (JArr (failedAssets (this_after out)))) = None
          \<longrightarrow> (TDownloadAssets,
                Fs (OutputJson (createExportPath (config (new_PrismicBackup cfg0)) ''failed-assets.json'')
                               (JArr (failedAssets (this_after out)))) None)
                 \<in> set (effects out)"
    by blast
  from out run1_is have "out = run1" by simp
  then have f: "failedAssets (this_after out) = [asset_a]"
    by (simp add: run1_def)
  have "fs env_404 TDownloadAssets op = None" for op
    by (simp add: env_404_def env_ok_def)
  with w f have "(TDownloadAssets,
             Fs (OutputJson (createExportPath cfg0 ''failed-assets.json'') (JArr [asset_a])) None)
              \<in> set (effects out)"
    by (simp add: new_PrismicBackup_def)
  with loop1_is ne out f show ?thesis by blast
qed

subsection \<open>A descriptor without a usable URL\<close>

text \<open>The \<open>url\<close> of a descriptor is absent or not a string (or the descriptor is
  \<open>null\<close> or \<open>undefined\<close>, so that reading the property throws).\<close>

definition url_missing :: "jsval \<Rightarrow> bool" where
  "url_missing d = (case get_prop d ''url'' of Inr (JStr s) \<Rightarrow> False | _ \<Rightarrow> True)"

lemma url_missing_throws: "url_missing d \<Longrightarrow> \<exists>m. canonical_url d = Inl (TypeError m)"
proof -
  assume m: "url_missing d"
  show ?thesis
  proof (cases "get_prop d ''url''")
    case (Inl e)
    then show ?thesis by (cases d) (auto simp: canonical_url_def)
  next
    case (Inr v)
    with m show ?thesis by (cases v) (auto simp: canonical_url_def url_missing_def)
  qed
qed

lemma url_missing_not_startable: "url_missing d \<Longrightarrow> \<not> startable d"
  using url_missing_throws [of d] by (auto simp: startable_def)

lemma push_in_calls:
  assumes "(t, Push d) \<in> calls_from env dest assets i"
  shows "startable d"
proof -
  from assms obtain k a where ce: "(t, Push d) \<in> set (call_events env dest (k, a))"
    by (auto simp: calls_from_def)
  then have "d \<in> set (pushes (call_events env dest (k, a)))" by (auto simp: set_pushes)
  with call_events_pushes [of env dest k a] have "d = a" by auto
  moreover from ce call_events_not_startable [of a env dest k] have "startable a"
    by (cases "startable a") auto
  ultimately show ?thesis by simp
qed

definition asset_no_url :: jsval where
  "asset_no_url = JObj [(''filename'', JStr ''orphan.png'')]"

text \<open>
  Claim C9. \<open>downloadAsset\<close> derives the canonical URL and the file name before its
  \<open>try\<close> block. For a descriptor at position \<open>j\<close> whose \<open>url\<close> is absent or not a
  string, the call throws a TypeError before anything is started, outside the handler of
  the download. In the run the descriptor is never pushed to the failed-asset sequence,
  neither before \<open>downloadAssets\<close> returns nor by the downloads left under way; the run
  ends in the outer handler, whose error line is the last effect and the only effect of
  \<open>downloadAssets\<close> itself (no manifest is written, no count of successes is logged);
  and no download of a chunk after the descriptor's own is started.
\<close>

theorem C9_missing_url_aborts_run:
  assumes "j < length assets" and "url_missing (assets ! j)"
  shows "(\<exists>m. downloadAsset env j (assets ! j) dest = ([], ([], Inl (TypeError m))))
     \<and> (\<exists>out m. downloadAssets fuel env this (Some assets) = Some out
           \<and> settled out = Inr ()
           \<and> last (effects out) = (TDownloadAssets, Log ERROR (AssetsDownloadFailed m))
           \<and> (\<forall>ev. (TDownloadAssets, ev) \<in> set (effects out)
                  \<longrightarrow> ev = Log ERROR (AssetsDownloadFailed m))
           \<and> (\<forall>k ev. (TDownload k, ev) \<in> set (effects out)
                  \<longrightarrow> k < BATCH_SIZE * (j div BATCH_SIZE + 1))
           \<and> (\<forall>t. (t, Push (assets ! j)) \<notin> set (effects out))
           \<and> (\<forall>d \<in> set (detached out). \<forall>t. (t, Push (assets ! j)) \<notin> set (fst d))
           \<and> failedAssets (this_after out) = failedAssets this @ pushes (effects out))"
proof -
  let ?dest = "createExportPath (config this) ''assets''"
  from url_missing_throws [OF assms(2)] obtain m0 where m0: "canonical_url (assets ! j) = Inl (TypeError m0)" ..
  then have first: "\<exists>m. downloadAsset env j (assets ! j) dest = ([], ([], Inl (TypeError m)))"
    by (simp add: downloadAsset_def throw_def)
  have ns: "\<not> startable (assets ! j)" using assms(2) by (rule url_missing_not_startable)
  from download_loop_aborts [of 0 j assets env ?dest] assms(1) ns
  obtain tr e orph where loop: "download_loop env ?dest assets 0 = (tr, Inl e, orph)"
    and bound: "\<forall>x \<in> set tr. \<exists>k. fst x = TDownload k \<and> k < BATCH_SIZE * (j div BATCH_SIZE + 1)"
    by auto
  let ?line = "(TDownloadAssets, Log ERROR (AssetsDownloadFailed (message e)))"
  let ?out = "\<lparr>this_after = after this tr, effects = tr @ [?line],
               settled = Inr (), detached = orph\<rparr>"
  have out: "downloadAssets fuel env this (Some assets) = Some ?out"
    using downloadAssets_aborts [OF loop] .
  from download_loop_effects [of env ?dest assets 0] loop
  have sub: "set tr \<subseteq> calls_from env ?dest assets 0"
    and osub: "\<forall>d \<in> set orph. set (fst d) \<subseteq> calls_from env ?dest assets 0"
    by simp_all
  have a: "\<forall>ev. (TDownloadAssets, ev) \<in> set (effects ?out)
                  \<longrightarrow> ev = Log ERROR (AssetsDownloadFailed (message e))"
    using bound by auto
  have b: "\<forall>k ev. (TDownload k, ev) \<in> set (effects ?out)
                  \<longrightarrow> k < BATCH_SIZE * (j div BATCH_SIZE + 1)"
    using bound by auto
  have c: "\<forall>t. (t, Push (assets ! j)) \<notin> set (effects ?out)"
    using sub push_in_calls [of _ "assets ! j" env ?dest assets 0] ns by auto
  have d: "\<forall>d \<in> set (detached ?out). \<forall>t. (t, Push (assets ! j)) \<notin> set (fst d)"
    using osub push_in_calls [of _ "assets ! j" env ?dest assets 0] ns by auto
  have f: "failedAssets (this_after ?out) = failedAssets this @ pushes (effects ?out)"
    by simp
  have "\<exists>out m. downloadAssets fuel env this (Some assets) = Some out
           \<and> settled out = Inr ()
           \<and> last (effects out) = (TDownloadAssets, Log ERROR (AssetsDownloadFailed m))
           \<and> (\<forall>ev. (TDownloadAssets, ev) \<in> set (effects out)
                  \<longrightarrow> ev = Log ERROR (AssetsDownloadFailed m))
           \<and> (\<forall>k ev. (TDownload k, ev) \<in> set (effects out)
                  \<longrightarrow> k < BATCH_SIZE * (j div BATCH_SIZE + 1))
           \<and> (\<forall>t. (t, Push (assets ! j)) \<notin> set (effects out))
           \<and> (\<forall>d \<in> set (detached out). \<forall>t. (t, Push (assets ! j)) \<notin> set (fst d))
           \<and> failedAssets (this_after out) = failedAssets this @ pushes (effects out)"
    by (rule exI [of _ ?out], rule exI [of _ "message e"]) (intro conjI out a b c d f; simp)
  with first show ?thesis by (rule conjI)
qed

theorem C9_missing_url_aborts_run_witness:
  "0 < length [asset_no_url] \<and> url_missing ([asset_no_url] ! 0)
   \<and> (\<exists>out m. downloadAssets 0 env_ok (new_PrismicBackup cfg0) (Some [asset_no_url]) = Some out
          \<and> settled out = Inr ()
          \<and> last (effects out) = (TDownloadAssets, Log ERROR (AssetsDownloadFailed m))
          \<and> failedAssets (this_after out) = failedAssets (new_PrismicBackup cfg0) @ pushes (effects out))"
proof -
  have h1: "0 < length [asset_no_url]" by simp
  have h2: "url_missing ([asset_no_url] ! 0)"
    by (simp add: url_missing_def asset_no_url_def)
  from C9_missing_url_aborts_run [OF h1 h2, of env_ok "[]" 0 "new_PrismicBackup cfg0"] h1 h2
  show ?thesis by blast
qed

subsection \<open>The accumulator across calls\<close>

lemma guard_accumulates:
  "failedAssets (this_after (download_guard this body)) = failedAssets this @ pushes (effects (download_guard this body))
   \<and> config (this_after (download_guard this body)) = config this
   \<and> root (this_after (download_guard this body)) = root this"
  by (cases body rule: prod_cases3) (auto simp: download_guard_def log_def split: sum.splits)

lemma downloadAssets_accumulates:
  assumes "downloadAssets fuel env this a = Some out"
  shows "failedAssets (this_after out) = failedAssets this @ pushes (effects out)"
    and "config (this_after out) = config this"
    and "root (this_after out) = root this"
  using assms
  by (auto simp: downloadAssets_def guard_accumulates split: option.splits prod.splits)

definition tr2 :: trace where
  "tr2 = [(TDownload 0, Fetch ''https://cdn.example/img/b.png''),
          (TDownload 0, Fs (EnsureDir [''./'', ''repo'', ''assets'']) None),
          (TDownload 0, Fs (WriteFile [''./'', ''repo'', ''assets'', ''b.png''] ''bytes'') None),
          (TDownload 0, Log INFO (Downloaded (JStr ''B.png'') [''./'', ''repo'', ''assets'']))]"

lemma loop2_is:
  "download_loop env_ok (createExportPath (config (new_PrismicBackup cfg0)) ''assets'') [asset_b] 0
     = (tr2, Inr (), [])"
  by (simp add: tr2_def eval_defs download_loop.simps promise_all.simps)

text \<open>
  Claim C10. A new object has an empty failed-asset sequence, and no call resets it:
  a call on an object on which no download is under way leaves the sequence it found
  followed by what the call pushed. So for a first call that leaves no download under way
  (its outcome has nothing detached) and a second call, on the object the first has left,
  whose chunks all complete over a non-empty list: the sequence afterwards holds the entries
  from before, those of the first call and those of the second; the count of successes it
  logs is the length of the list minus the length of that whole sequence; and a manifest it
  writes has the whole sequence as its content. (A first call that aborts with downloads
  still under way is left out: their pushes would reach the object during or after the
  second call.)
\<close>

theorem C10_accumulator_persists:
  assumes "downloadAssets fuel1 env1 this assets1 = Some out1"
    and "detached out1 = []"
    and "download_loop env2 (createExportPath (config this) ''assets'') assets2 0 = (tr, Inr (), orph)"
    and "assets2 \<noteq> []"
  shows "failedAssets (new_PrismicBackup c) = []
     \<and> failedAssets (this_after out1) = failedAssets this @ pushes (effects out1)
     \<and> (\<exists>out2. downloadAssets fuel2 env2 (this_after out1) (Some assets2) = Some out2
          \<and> failedAssets (this_after out2) = failedAssets this @ pushes (effects out1) @ pushes tr
          \<and> (TDownloadAssets,
              Log INFO (DownloadedCount
                (int (length assets2)
                   - int (length (failedAssets this @ pushes (effects out1) @ pushes tr)))
                (length assets2))) \<in> set (effects out2)
          \<and> (\<forall>t p c r. (t, Fs (OutputJson p c) r) \<in> set (effects out2)
                \<longrightarrow> c = JArr (failedAssets this @ pushes (effects out1) @ pushes tr)))"
proof -
  let ?this1 = "this_after out1"
  note acc = downloadAssets_accumulates [OF assms(1)]
  from assms(3) acc(2)
  have loop: "download_loop env2 (createExportPath (config ?this1) ''assets'') assets2 0
                = (tr, Inr (), orph)" by simp
  let ?after = "after ?this1 tr"
  let ?out = "\<lparr>this_after = ?after,
               effects = tr @ fst (logFailedAssets env2 ?after) @ [count_line ?after assets2],
               settled = Inr (), detached = orph\<rparr>"
  have out: "downloadAssets fuel2 env2 ?this1 (Some assets2) = Some ?out"
    using downloadAssets_completes [OF loop assms(4)] .
  have f: "failedAssets (this_after ?out) = failedAssets this @ pushes (effects out1) @ pushes tr"
    using acc(1) by simp
  have l: "(TDownloadAssets,
              Log INFO (DownloadedCount
                (int (length assets2)
                   - int (length (failedAssets this @ pushes (effects out1) @ pushes tr)))
                (length assets2))) \<in> set (effects ?out)"
    using acc(1) by (simp add: count_line_def)
  have m: "\<forall>t p c r. (t, Fs (OutputJson p c) r) \<in> set (effects ?out)
                \<longrightarrow> c = JArr (failedAssets this @ pushes (effects out1) @ pushes tr)"
  proof (intro allI impI)
    fix t p c r assume "(t, Fs (OutputJson p c) r) \<in> set (effects ?out)"
    with download_loop_kinds [OF loop, of t "Fs (OutputJson p c) r"]
    have "(t, Fs (OutputJson p c) r) \<in> set (fst (logFailedAssets env2 ?after))"
      by (auto simp: count_line_def)
    from logFailedAssets_manifest [OF this] acc(1)
    show "c = JArr (failedAssets this @ pushes (effects out1) @ pushes tr)" by simp
  qed
  have "\<exists>out2. downloadAssets fuel2 env2 (this_after out1) (Some assets2) = Some out2
          \<and> failedAssets (this_after out2) = failedAssets this @ pushes (effects out1) @ pushes tr
          \<and> (TDownloadAssets,
              Log INFO (DownloadedCount
                (int (length assets2)
                   - int (length (failedAssets this @ pushes (effects out1) @ pushes tr)))
                (length assets2))) \<in> set (effects out2)
          \<and> (\<forall>t p c r. (t, Fs (OutputJson p c) r) \<in> set (effects out2)
                \<longrightarrow> c = JArr (failedAssets this @ pushes (effects out1) @ pushes tr))"
    by (rule exI [of _ ?out]) (intro conjI out f l m)
  with acc(1) show ?thesis by (simp add: new_PrismicBackup_def)
qed

theorem C10_accumulator_persists_witness:
  "downloadAssets 0 env_404 (new_PrismicBackup cfg0) (Some [asset_a]) = Some run1
   \<and> detached run1 = []
   \<and> download_loop env_ok (createExportPath (config (new_PrismicBackup cfg0)) ''assets'') [asset_b] 0
        = (tr2, Inr (), [])
   \<and> [asset_b] \<noteq> []
   \<and> (\<exists>out2. downloadAssets 0 env_ok (this_after run1) (Some [asset_b]) = Some out2
          \<and> failedAssets (this_after out2) = [asset_a]
          \<and> (TDownloadAssets, Log INFO (DownloadedCount 0 1)) \<in> set (effects out2))"
proof -
  have ne: "[asset_b] \<noteq> []" by simp
  have nd: "detached run1 = []" by (simp add: run1_def)
  have p1: "pushes (effects run1) = [asset_a]" by (simp add: run1_def)
  have p2: "pushes tr2 = []" by (simp add: tr2_def)
  have f0: "failedAssets (new_PrismicBackup cfg0) = []" by (simp add: new_PrismicBackup_def)
  from C10_accumulator_persists [OF run1_is nd loop2_is ne, of cfg0 0]
  obtain out2 where "downloadAssets 0 env_ok (this_after run1) (Some [asset_b]) = Some out2"
    and "failedAssets (this_after out2)
           = failedAssets (new_PrismicBackup cfg0) @ pushes (effects run1) @ pushes tr2"
    and "(TDownloadAssets,
              Log INFO (DownloadedCount
                (int (length [asset_b])
                   - int (length (failedAssets (new_PrismicBackup cfg0) @ pushes (effects run1)
                                   @ pushes tr2)))
                (length [asset_b]))) \<in> set (effects out2)"
    by blast
  with p1 p2 f0 nd run1_is loop2_is ne show ?thesis by auto
qed

section \<open>The paginated listing\<close>

text \<open>The \<open>n\<close>-th listing request is answered with a success status and a body whose
  \<open>items\<close> is the array \<open>items\<close> and whose \<open>cursor\<close> is \<open>cur\<close>.\<close>

definition serves :: "env \<Rightarrow> nat \<Rightarrow> jsval list \<Rightarrow> jsval \<Rightarrow> bool" where
  "serves env n items cur =
     (case fetchAssetsPage env n of
        Inl _ \<Rightarrow> False
      | Inr r \<Rightarrow>
          ok r \<and>
          (case json r of
             Inl _ \<Rightarrow> False
           | Inr data \<Rightarrow>
               get_prop data ''items'' = Inr (JArr items) \<and> get_prop data ''cursor'' = Inr cur))"

text \<open>The query of a listing request made while the variable \<open>cursor\<close> holds \<open>cur\<close>.\<close>

definition query_for :: "jsval \<Rightarrow> (string \<times> string) list" where
  "query_for cur =
     (if truthy cur then [(''limit'', ''1000''), (''cursor'', js_to_string cur)]
      else [(''limit'', ''1000'')])"

definition list_request :: "config \<Rightarrow> jsval \<Rightarrow> tid \<times> event" where
  "list_request c cur = (TAssetsList, AuthFetch ASSETS_API (query_for cur) (auth_headers c))"

definition next_params :: "(string \<times> string) list \<Rightarrow> jsval \<Rightarrow> (string \<times> string) list" where
  "next_params params cursor =
     (if truthy cursor then set_param ''cursor'' (js_to_string cursor) params else params)"

fun is_request :: "tid \<times> event \<Rightarrow> bool" where
  "is_request (t, AuthFetch u q h) = True"
| "is_request _ = False"

lemma next_params_query:
  "truthy cur \<Longrightarrow> next_params (query_for prev) cur = query_for cur"
  by (simp add: next_params_def query_for_def)

lemma list_page_serves:
  assumes "serves env n its cur"
  shows "list_page env c n params
           = ([(TAssetsList, AuthFetch ASSETS_API params (auth_headers c))], Inr (its, cur))"
  using assms
  by (auto simp: serves_def list_page_def async_defs split: sum.splits)


lemma list_loop_step:
  assumes "serves env n its cur" and "truthy cur" and "next_params params cursor = query_for cursor"
  shows "list_loop (Suc fuel) env c n params cursor items
           = (case list_loop fuel env c (Suc n) (query_for cursor) cur (items @ its) of
                None \<Rightarrow> None
              | Some (tr', r) \<Rightarrow> Some (list_request c cursor # tr', r))"
  using assms list_page_serves [OF assms(1), of c "query_for cursor"]
  by (simp add: next_params_def list_request_def split: option.splits)

lemma list_loop_last:
  assumes "serves env n its cur" and "\<not> truthy cur" and "next_params params cursor = query_for cursor"
  shows "list_loop (Suc fuel) env c n params cursor items
           = Some ([list_request c cursor], Inr (items @ its))"
  using assms list_page_serves [OF assms(1), of c "query_for cursor"]
  by (simp add: next_params_def list_request_def)


text \<open>Through pages that all carry a cursor.\<close>

lemma list_loop_pages:
  assumes "\<forall>k < length pages. serves env (n + k) (fst (pages ! k)) (snd (pages ! k))
                              \<and> truthy (snd (pages ! k))"
    and "next_params params cursor = query_for cursor"
  shows "\<exists>P. next_params P (last (cursor # map snd pages)) = query_for (last (cursor # map snd pages))
     \<and> list_loop (length pages + fuel) env c n params cursor items
         = (case list_loop fuel env c (n + length pages) P (last (cursor # map snd pages))
                   (items @ concat (map fst pages)) of
              None \<Rightarrow> None
            | Some (tr', r) \<Rightarrow>
                Some (map (list_request c) (butlast (cursor # map snd pages)) @ tr', r))"
  using assms
proof (induction pages arbitrary: n params cursor items)
  case Nil
  then show ?case by (auto split: option.splits)
next
  case (Cons p ps)
  from Cons.prems(1) have p: "serves env n (fst p) (snd p)" "truthy (snd p)"
    by force+
  have rest: "\<forall>k < length ps. serves env (Suc n + k) (fst (ps ! k)) (snd (ps ! k))
                              \<and> truthy (snd (ps ! k))"
  proof (intro allI impI)
    fix k assume "k < length ps"
    then have "Suc k < length (p # ps)" by simp
    from Cons.prems(1) [rule_format, OF this] show "serves env (Suc n + k) (fst (ps ! k)) (snd (ps ! k))
                              \<and> truthy (snd (ps ! k))" by simp
  qed
  have inv: "next_params (query_for cursor) (snd p) = query_for (snd p)"
    using p(2) by (rule next_params_query)
  from Cons.IH [OF rest inv, of "items @ fst p"]
  obtain P where P: "next_params P (last (snd p # map snd ps)) = query_for (last (snd p # map snd ps))"
    and ih: "list_loop (length ps + fuel) env c (Suc n) (query_for cursor) (snd p) (items @ fst p)
         = (case list_loop fuel env c (Suc n + length ps) P (last (snd p # map snd ps))
                   ((items @ fst p) @ concat (map fst ps)) of
              None \<Rightarrow> None
            | Some (tr', r) \<Rightarrow>
                Some (map (list_request c) (butlast (snd p # map snd ps)) @ tr', r))"
    by blast
  have "list_loop (length (p # ps) + fuel) env c n params cursor items
          = (case list_loop (length ps + fuel) env c (Suc n) (query_for cursor) (snd p) (items @ fst p) of
                None \<Rightarrow> None
              | Some (tr', r) \<Rightarrow> Some (list_request c cursor # tr', r))"
    using list_loop_step [OF p Cons.prems(2), of "length ps + fuel" c items] by simp
  with ih P show ?case
    by (intro exI [of _ P]) (auto split: option.splits)
qed

definition assets_json :: "PrismicBackup \<Rightarrow> path" where
  "assets_json this = createExportPath (config this) ''assets.json''"

lemma exportAssetsList_failed:
  assumes "list_loop fuel env (config this) 0 [(''limit'', ''1000'')] JNull [] = Some (tr, Inl e)"
  shows "exportAssetsList fuel env this
           = Some (tr @ [(TAssetsList, Log ERROR (AssetsListFailed (message e)))], Inr None)"
  using assms by (simp add: exportAssetsList_def async_defs)

lemma exportAssetsList_listed:
  assumes "list_loop fuel env (config this) 0 [(''limit'', ''1000'')] JNull [] = Some (tr, Inr items)"
  shows "\<exists>tr' r. exportAssetsList fuel env this = Some (tr @ tr', Inr r)
     \<and> filter is_request tr' = []
     \<and> (r = None \<or> r = Some items)
     \<and> (fs env TAssetsList (EnsureDir (root this)) = None
          \<and> fs env TAssetsList (OutputJson (assets_json this) (JArr items)) = None
          \<longrightarrow> r = Some items)
     \<and> (\<forall>t p c res. (t, Fs (OutputJson p c) res) \<in> set tr' \<longrightarrow> p = assets_json this \<and> c = JArr items)"
  using assms
  by (auto simp: exportAssetsList_def assets_json_def async_defs split: option.splits)

lemma requests_only [simp]: "filter is_request (map (list_request c) curs) = map (list_request c) curs"
  by (induction curs) (simp_all add: list_request_def)

lemma no_output_in_requests: "(t, Fs op res) \<notin> set (map (list_request c) curs)"
  by (auto simp: list_request_def)

lemma start_params: "next_params [(''limit'', ''1000'')] JNull = query_for JNull"
  by (simp add: next_params_def query_for_def)

text \<open>Pages that end with one without a cursor.\<close>

lemma list_loop_complete:
  assumes "pages \<noteq> []"
    and "\<forall>k < length pages. serves env k (fst (pages ! k)) (snd (pages ! k))"
    and "\<forall>k < length pages - 1. truthy (snd (pages ! k))"
    and "\<not> truthy (snd (last pages))"
    and "length pages \<le> fuel"
  shows "list_loop fuel env c 0 [(''limit'', ''1000'')] JNull []
           = Some (map (list_request c) (JNull # map snd (butlast pages)),
                   Inr (concat (map fst pages)))"
proof -
  let ?good = "butlast pages"
  have len: "length ?good = length pages - 1" by simp
  have good: "\<forall>k < length ?good. serves env (0 + k) (fst (?good ! k)) (snd (?good ! k))
                              \<and> truthy (snd (?good ! k))"
    using assms(2,3) by (simp add: nth_butlast)
  from assms(1,5) have "length ?good < fuel" by (cases pages) auto
  then obtain f where "fuel = Suc (length ?good + f)" using less_imp_Suc_add by blast
  then have fuel: "fuel = length ?good + Suc f" by simp
  from list_loop_pages [OF good start_params, of "Suc f" c "[]"]
  obtain P where P: "next_params P (last (JNull # map snd ?good)) = query_for (last (JNull # map snd ?good))"
    and run: "list_loop (length ?good + Suc f) env c 0 [(''limit'', ''1000'')] JNull []
         = (case list_loop (Suc f) env c (0 + length ?good) P (last (JNull # map snd ?good))
                   ([] @ concat (map fst ?good)) of
              None \<Rightarrow> None
            | Some (tr', r) \<Rightarrow>
                Some (map (list_request c) (butlast (JNull # map snd ?good)) @ tr', r))"
    by blast
  have lastp: "serves env (length ?good) (fst (last pages)) (snd (last pages))"
    using assms(1,2) by (simp add: last_conv_nth)
  from list_loop_last [OF lastp assms(4) P, of f c "concat (map fst ?good)"]
  have fin: "list_loop (Suc f) env c (0 + length ?good) P (last (JNull # map snd ?good))
               ([] @ concat (map fst ?good))
             = Some ([list_request c (last (JNull # map snd ?good))],
                     Inr (concat (map fst ?good) @ fst (last pages)))"
    by simp
  have "concat (map fst (?good @ [last pages])) = concat (map fst pages)"
    by (simp only: append_butlast_last_id [OF assms(1)])
  then have items: "concat (map fst ?good) @ fst (last pages) = concat (map fst pages)"
    by simp
  have "butlast (JNull # map snd ?good) @ [last (JNull # map snd ?good)] = JNull # map snd ?good"
    by (rule append_butlast_last_id) simp
  then have "map (list_request c) (butlast (JNull # map snd ?good))
               @ [list_request c (last (JNull # map snd ?good))]
             = map (list_request c) (JNull # map snd ?good)"
    by (metis list.simps(8,9) map_append)
  with run fin items show ?thesis unfolding fuel by simp
qed

definition page_response :: "jsval list \<Rightarrow> jsval \<Rightarrow> response" where
  "page_response items cur =
     \<lparr>ok = True, status = 200, statusText = ''OK'',
      json = Inr (JObj [(''items'', JArr items), (''cursor'', cur)]), arrayBuffer = Inr []\<rparr>"

text \<open>The listing of the example: \<open>{items: [a, b], cursor: "c1"}\<close>, then
  \<open>{items: [c], cursor: null}\<close>.\<close>

definition two_pages :: "jsval \<Rightarrow> jsval \<Rightarrow> jsval \<Rightarrow> env" where
  "two_pages a b c =
     env_ok\<lparr>fetchAssetsPage :=
              (\<lambda>n. if n = 0 then Inr (page_response [a, b] (JStr ''c1''))
                    else Inr (page_response [c] JNull))\<rparr>"

lemma two_pages_run:
  "exportAssetsList 2 (two_pages a b c) (new_PrismicBackup cfg0)
     = Some ([(TAssetsList, AuthFetch ASSETS_API [(''limit'', ''1000'')]
                 [(''repository'', ''repo''), (''authorization'', ''Bearer write'')]),
              (TAssetsList, AuthFetch ASSETS_API [(''limit'', ''1000''), (''cursor'', ''c1'')]
                 [(''repository'', ''repo''), (''authorization'', ''Bearer write'')]),
              (TAssetsList, Fs (EnsureDir [''./'', ''repo'', []]) None),
              (TAssetsList, Fs (OutputJson [''./'', ''repo'', ''assets.json''] (JArr [a, b, c])) None),
              (TAssetsList, Log INFO (AssetsExported 3 [''./'', ''repo'', ''assets.json'']))],
             Inr (Some [a, b, c]))"
  by (simp add: exportAssetsList_def numeral_2_eq_2 list_page_def async_defs two_pages_def
                page_response_def env_ok_def cfg0_def new_PrismicBackup_def createExportPath_def
                auth_headers_def)

definition example_pages :: "(jsval list \<times> jsval) list" where
  "example_pages = [([asset_a, asset_b], JStr ''c1''), ([asset_no_url], JNull)]"

text \<open>
  Claim C5. Let the listing requests be answered, in order, with the pages of a non-empty
  sequence in which every page but the last carries a cursor and the last carries none
  (a cursor counts as carried when it is truthy, which is what the loop tests). Then
  \<open>exportAssetsList\<close> makes exactly one request per page, the first without a cursor and
  each later one with the cursor of the page before it as its \<open>cursor\<close> parameter, and
  stops. What it hands to the file \<open>assets.json\<close> is the concatenation of the pages'
  items in page order, and that concatenation is what it returns once the file is
  written (if ensuring the directory or writing fails, its handler returns
  \<open>undefined\<close>). For the pages \<open>{items: [a, b], cursor: "c1"}\<close> and
  \<open>{items: [c], cursor: null}\<close> it returns \<open>[a, b, c]\<close> after two requests.
\<close>

theorem C5_listing_concatenates_pages:
  assumes "pages \<noteq> []"
    and "\<forall>k < length pages. serves env k (fst (pages ! k)) (snd (pages ! k))"
    and "\<forall>k < length pages - 1. truthy (snd (pages ! k))"
    and "\<not> truthy (snd (last pages))"
    and "length pages \<le> fuel"
  shows "(\<exists>tr r. exportAssetsList fuel env this = Some (tr, Inr r)
       \<and> filter is_request tr
            = map (list_request (config this)) (JNull # map snd (butlast pages))
       \<and> (r = None \<or> r = Some (concat (map fst pages)))
       \<and> (fs env TAssetsList (EnsureDir (root this)) = None
            \<and> fs env TAssetsList
                  (OutputJson (assets_json this) (JArr (concat (map fst pages)))) = None
            \<longrightarrow> r = Some (concat (map fst pages)))
       \<and> (\<forall>t p c res. (t, Fs (OutputJson p c) res) \<in> set tr
              \<longrightarrow> p = assets_json this \<and> c = JArr (concat (map fst pages))))
     \<and> (\<exists>tr. exportAssetsList 2 (two_pages a b c) (new_PrismicBackup cfg0)
                 = Some (tr, Inr (Some [a, b, c]))
             \<and> length (filter is_request tr) = 2)"
proof -
  let ?reqs = "map (list_request (config this)) (JNull # map snd (butlast pages))"
  let ?items = "concat (map fst pages)"
  from list_loop_complete [OF assms, of "config this"]
  have listed: "list_loop fuel env (config this) 0 [(''limit'', ''1000'')] JNull []
                  = Some (?reqs, Inr ?items)" .
  from exportAssetsList_listed [OF listed]
  obtain tr' r where run: "exportAssetsList fuel env this = Some (?reqs @ tr', Inr r)"
    and nreq: "filter is_request tr' = []"
    and res: "r = None \<or> r = Some ?items"
    and okfs: "fs env TAssetsList (EnsureDir (root this)) = None
          \<and> fs env TAssetsList (OutputJson (assets_json this) (JArr ?items)) = None
          \<longrightarrow> r = Some ?items"
    and outj: "\<forall>t p c res. (t, Fs (OutputJson p c) res) \<in> set tr'
                 \<longrightarrow> p = assets_json this \<and> c = JArr ?items"
    by blast
  have reqs: "filter is_request (?reqs @ tr') = ?reqs"
    using nreq by (simp only: filter_append requests_only) simp
  have outj': "\<forall>t p c res. (t, Fs (OutputJson p c) res) \<in> set (?reqs @ tr')
                 \<longrightarrow> p = assets_json this \<and> c = JArr ?items"
    using outj no_output_in_requests [of _ _ _ "config this" "JNull # map snd (butlast pages)"]
    by (simp only: set_append Un_iff) blast
  have general: "\<exists>tr r. exportAssetsList fuel env this = Some (tr, Inr r)
       \<and> filter is_request tr = ?reqs
       \<and> (r = None \<or> r = Some ?items)
       \<and> (fs env TAssetsList (EnsureDir (root this)) = None
            \<and> fs env TAssetsList (OutputJson (assets_json this) (JArr ?items)) = None
            \<longrightarrow> r = Some ?items)
       \<and> (\<forall>t p c res. (t, Fs (OutputJson p c) res) \<in> set tr
              \<longrightarrow> p = assets_json this \<and> c = JArr ?items)"
    by (rule exI [of _ "?reqs @ tr'"], rule exI [of _ r]) (intro conjI run reqs res okfs outj')
  have example: "\<exists>tr. exportAssetsList 2 (two_pages a b c) (new_PrismicBackup cfg0)
                 = Some (tr, Inr (Some [a, b, c]))
             \<and> length (filter is_request tr) = 2"
    by (simp add: two_pages_run)
  from general example show ?thesis by (rule conjI)
qed

theorem C5_listing_concatenates_pages_witness:
  "example_pages \<noteq> []
   \<and> serves (two_pages asset_a asset_b asset_no_url) 0 [asset_a, asset_b] (JStr ''c1'')
   \<and> serves (two_pages asset_a asset_b asset_no_url) 1 [asset_no_url] JNull
   \<and> truthy (JStr ''c1'') \<and> \<not> truthy JNull \<and> length example_pages \<le> 2
   \<and> (\<exists>tr r. exportAssetsList 2 (two_pages asset_a asset_b asset_no_url) (new_PrismicBackup cfg0)
                  = Some (tr, Inr r)
          \<and> filter is_request tr
               = map (list_request (config (new_PrismicBackup cfg0))) [JNull, JStr ''c1'']
          \<and> r = Some [asset_a, asset_b, asset_no_url])"
proof -
  let ?env = "two_pages asset_a asset_b asset_no_url"
  have s0: "serves ?env 0 [asset_a, asset_b] (JStr ''c1'')"
    and s1: "serves ?env 1 [asset_no_url] JNull"
    by (simp_all add: serves_def two_pages_def page_response_def)
  have h1: "example_pages \<noteq> []" by (simp add: example_pages_def)
  have h2: "\<forall>k < length example_pages.
              serves ?env k (fst (example_pages ! k)) (snd (example_pages ! k))"
    using s0 s1 by (simp add: example_pages_def less_Suc_eq)
  have h3: "\<forall>k < length example_pages - 1. truthy (snd (example_pages ! k))"
    by (simp add: example_pages_def)
  have h4: "\<not> truthy (snd (last example_pages))" by (simp add: example_pages_def)
  have h5: "length example_pages \<le> 2" by (simp add: example_pages_def)
  have fsok: "fs ?env t op = None" for t op
    by (simp add: two_pages_def env_ok_def)
  from C5_listing_concatenates_pages [OF h1 h2 h3 h4 h5, of "new_PrismicBackup cfg0"]
  obtain tr r where "exportAssetsList 2 ?env (new_PrismicBackup cfg0) = Some (tr, Inr r)"
    and "filter is_request tr
            = map (list_request (config (new_PrismicBackup cfg0))) (JNull # map snd (butlast example_pages))"
    and "fs ?env TAssetsList (EnsureDir (root (new_PrismicBackup cfg0))) = None
            \<and> fs ?env TAssetsList
                  (OutputJson (assets_json (new_PrismicBackup cfg0))
                     (JArr (concat (map fst example_pages)))) = None
            \<longrightarrow> r = Some (concat (map fst example_pages))"
    by blast
  with fsok have "\<exists>tr r. exportAssetsList 2 ?env (new_PrismicBackup cfg0) = Some (tr, Inr r)
          \<and> filter is_request tr
               = map (list_request (config (new_PrismicBackup cfg0))) [JNull, JStr ''c1'']
          \<and> r = Some [asset_a, asset_b, asset_no_url]"
    by (simp add: example_pages_def)
  with h1 s0 s1 h5 show ?thesis by simp
qed

section \<open>A non-success status: listing against download\<close>








section \<open>A malformed name in a batch\<close>

text \<open>Eleven descriptors, the first with a \<open>%\<close> that starts no escape in its last path
  segment.\<close>

definition asset_percent :: jsval where
  "asset_percent =
     JObj [(''url'', JStr ''https://cdn.example/img/100%.png''), (''filename'', JStr ''100%.png'')]"

definition eleven_assets :: "jsval list" where
  "eleven_assets =
     [asset_percent, asset_b, asset_b, asset_b, asset_b, asset_b, asset_b, asset_b, asset_b,
      asset_b, asset_a]"

text \<open>
  Claim C1 at a list of eleven descriptors whose first has a malformed escape in its
  name: the first chunk is started except for that descriptor, \<open>Promise.all\<close> rejects with
  the URIError, the outer handler logs it, and the second chunk (position ten) is never
  started; the failed-asset sequence stays empty.
\<close>

theorem C1_malformed_name_aborts_batches:
  "length eleven_assets = 11
   \<and> map_option effects (downloadAssets 0 env_ok (new_PrismicBackup cfg0) (Some eleven_assets))
       = Some [(TDownload 1, Fetch ''https://cdn.example/img/b.png''),
               (TDownload 2, Fetch ''https://cdn.example/img/b.png''),
               (TDownload 3, Fetch ''https://cdn.example/img/b.png''),
               (TDownload 4, Fetch ''https://cdn.example/img/b.png''),
               (TDownload 5, Fetch ''https://cdn.example/img/b.png''),
               (TDownload 6, Fetch ''https://cdn.example/img/b.png''),
               (TDownload 7, Fetch ''https://cdn.example/img/b.png''),
               (TDownload 8, Fetch ''https://cdn.example/img/b.png''),
               (TDownload 9, Fetch ''https://cdn.example/img/b.png''),
               (TDownloadAssets, Log ERROR (AssetsDownloadFailed ''URI malformed''))]
   \<and> map_option (\<lambda>out. failedAssets (this_after out))
         (downloadAssets 0 env_ok (new_PrismicBackup cfg0) (Some eleven_assets)) = Some []"
  by (simp add: eleven_assets_def asset_percent_def eval_defs download_loop.simps
                promise_all.simps hex_val_def)

section \<open>Empty results\<close>

lemmas exporter_defs =
  exportCustomTypes_def exportSharedSlices_def exportTags_def exportRepositoryDetails_def
  exportDocuments_def documents_catch_def

text \<open>
  Claim C7, where the code departs from it. In a world where every call succeeds and every
  collection is empty, \<open>exportSharedSlices\<close>, \<open>exportTags\<close> and \<open>exportDocuments\<close> log a
  warning, touch no file and return \<open>undefined\<close>. \<open>exportCustomTypes\<close>, which has no test
  for an empty answer, ensures the root directory, writes \<open>custom-types.json\<close> holding
  \<open>[]\<close>, logs at level info that 0 custom types were exported and returns \<open>[]\<close>;
  \<open>exportAssetsList\<close> likewise writes \<open>assets.json\<close> holding \<open>[]\<close> and returns \<open>[]\<close>.
\<close>

theorem C7_empty_custom_types_are_written:
  "exportCustomTypes env_ok (new_PrismicBackup cfg0)
     = ([(TCustomTypes, AuthFetch CUSTOM_TYPES_API []
            [(''repository'', ''repo''), (''authorization'', ''Bearer write'')]),
         (TCustomTypes, Fs (EnsureDir [''./'', ''repo'', []]) None),
         (TCustomTypes, Fs (OutputJson [''./'', ''repo'', ''custom-types.json''] (JArr [])) None),
         (TCustomTypes,
          Log INFO (CustomTypesExported (JNum 0) [''./'', ''repo'', ''custom-types.json'']))],
        Inr (JArr []))
   \<and> exportSharedSlices env_ok (new_PrismicBackup cfg0)
     = ([(TSharedSlices, AuthFetch SLICES_API []
            [(''repository'', ''repo''), (''authorization'', ''Bearer write'')]),
         (TSharedSlices, Log WARN NoSharedSlices)],
        Inr JUndefined)
   \<and> exportTags env_ok (new_PrismicBackup cfg0) = ([(TTags, Log WARN NoTags)], Inr JUndefined)
   \<and> exportDocuments env_ok (new_PrismicBackup cfg0)
     = (([(TDocuments, Log WARN NoDocuments)], Inr JUndefined), [])
   \<and> exportAssetsList 1 env_ok (new_PrismicBackup cfg0)
     = Some ([(TAssetsList, AuthFetch ASSETS_API [(''limit'', ''1000'')]
                [(''repository'', ''repo''), (''authorization'', ''Bearer write'')]),
              (TAssetsList, Fs (EnsureDir [''./'', ''repo'', []]) None),
              (TAssetsList, Fs (OutputJson [''./'', ''repo'', ''assets.json''] (JArr [])) None),
              (TAssetsList, Log INFO (AssetsExported 0 [''./'', ''repo'', ''assets.json'']))],
             Inr (Some []))"
  by (simp add: exporter_defs exportAssetsList_def list_page_def async_defs env_ok_def
                response_ok_def cfg0_def new_PrismicBackup_def createExportPath_def
                auth_headers_def)

section \<open>Failures stay inside their task\<close>

lemma try_catch_settles:
  assumes "\<And>e. \<exists>v. snd (handler e) = Inr v"
  shows "\<exists>v. snd (try_catch body handler) = Inr v"
proof (cases body)
  case (Pair tr r)
  show ?thesis
  proof (cases r)
    case (Inl e)
    from assms [of e] obtain v where "snd (handler e) = Inr v" ..
    with Pair Inl show ?thesis by (cases "handler e") (simp add: try_catch_def)
  next
    case (Inr v)
    with Pair show ?thesis by (simp add: try_catch_def)
  qed
qed

lemma exportRepositoryDetails_settles: "\<exists>v. snd (exportRepositoryDetails env this) = Inr v"
  unfolding exportRepositoryDetails_def by (rule try_catch_settles) (simp add: async_defs)

lemma exportTags_settles: "\<exists>v. snd (exportTags env this) = Inr v"
  unfolding exportTags_def by (rule try_catch_settles) (simp add: async_defs)

lemma exportCustomTypes_settles: "\<exists>v. snd (exportCustomTypes env this) = Inr v"
  unfolding exportCustomTypes_def by (rule try_catch_settles) (simp add: async_defs)

lemma exportSharedSlices_settles: "\<exists>v. snd (exportSharedSlices env this) = Inr v"
  unfolding exportSharedSlices_def by (rule try_catch_settles) (simp add: async_defs)

lemma documents_catch_settles: "\<exists>v. snd (documents_catch e) = Inr v"
  by (simp add: documents_catch_def async_defs)

lemma exportDocuments_settles: "\<exists>v. snd (fst (exportDocuments env this)) = Inr v"
  unfolding exportDocuments_def
  using try_catch_settles [of documents_catch, OF documents_catch_settles]
  by (auto split: prod.splits sum.splits option.splits)

lemma exportAssetsList_settles:
  "exportAssetsList fuel env this = Some listed \<Longrightarrow> \<exists>l. snd listed = Inr l"
  by (auto simp: exportAssetsList_def and_then_def log_def return_def split: option.splits
           intro!: try_catch_settles)

lemma set_concat_advance:
  "k < length ts \<Longrightarrow> set (concat (map fst (ts[k := advance (ts ! k)]))) \<subseteq> set (concat (map fst ts))"
proof (induction ts arbitrary: k)
  case Nil
  then show ?case by simp
next
  case (Cons t ts)
  show ?case
  proof (cases k)
    case 0
    then show ?thesis by (cases "fst t") (auto simp: advance_def)
  next
    case (Suc j)
    with Cons.prems have "j < length ts" by simp
    from Cons.IH [OF this] Suc show ?thesis by auto
  qed
qed

lemma in_concat_fst: "x \<in> set (fst t) \<Longrightarrow> t \<in> set ts \<Longrightarrow> x \<in> set (concat (map fst ts))"
  by auto

lemma promise_all_events:
  "set (fst (promise_all choices ts)) \<subseteq> set (concat (map fst ts))"
proof (induction choices ts rule: promise_all.induct)
  case (1 choices ts)
  let ?live = "filter pending ts"
  let ?k = "pick choices (length ?live)"
  show ?case
  proof (cases "first_rejected ts")
    case (Some e)
    then show ?thesis by (subst promise_all.simps) simp
  next
    case None
    show ?thesis
    proof (cases "?live = []")
      case True
      with None show ?thesis by (subst promise_all.simps) simp
    next
      case False
      then have k: "?k < length ?live" by (simp add: pick_less)
      then have pk: "pending (?live ! ?k)" by (rule pending_nth_filter)
      obtain evs r rest where rec: "promise_all (tl choices) (?live[?k := advance (?live ! ?k)]) = (evs, r, rest)"
        by (cases "promise_all (tl choices) (?live[?k := advance (?live ! ?k)])") auto
      from "1.IH" [OF None False] rec
      have "set evs \<subseteq> set (concat (map fst (?live[?k := advance (?live ! ?k)])))" by simp
      with set_concat_advance [OF k]
      have "set evs \<subseteq> set (concat (map fst ?live))" by blast
      then have evs: "set evs \<subseteq> set (concat (map fst ts))"
        by (simp only: concat_filter_pending)
      from pk have "hd (fst (?live ! ?k)) \<in> set (fst (?live ! ?k))" by (simp add: pending_def)
      moreover from k have "?live ! ?k \<in> set ?live" by (rule nth_mem)
      ultimately have "hd (fst (?live ! ?k)) \<in> set (concat (map fst ?live))"
        by (rule in_concat_fst)
      then have h: "hd (fst (?live ! ?k)) \<in> set (concat (map fst ts))"
        by (simp only: concat_filter_pending)
      have "promise_all choices ts = (hd (fst (?live ! ?k)) # evs, r, rest)"
        using None False rec by (subst promise_all.simps) simp
      with evs h show ?thesis by simp
    qed
  qed
qed

text \<open>An error line is logged only by the handler: it is the last effect, and the result
  is \<open>undefined\<close>.\<close>

lemma exportRepositoryDetails_error_line:
  assumes "(t, Log ERROR m) \<in> set (fst (exportRepositoryDetails env this))"
  shows "snd (exportRepositoryDetails env this) = Inr JUndefined
       \<and> last (fst (exportRepositoryDetails env this)) = (t, Log ERROR m)"
  using assms
  by (auto simp: exportRepositoryDetails_def async_defs split: sum.splits option.splits if_splits)

lemma exportTags_error_line:
  assumes "(t, Log ERROR m) \<in> set (fst (exportTags env this))"
  shows "snd (exportTags env this) = Inr JUndefined
       \<and> last (fst (exportTags env this)) = (t, Log ERROR m)"
  using assms
  by (auto simp: exportTags_def async_defs split: sum.splits option.splits if_splits)

lemma exportCustomTypes_error_line:
  assumes "(t, Log ERROR m) \<in> set (fst (exportCustomTypes env this))"
  shows "snd (exportCustomTypes env this) = Inr JUndefined
       \<and> last (fst (exportCustomTypes env this)) = (t, Log ERROR m)"
  using assms
  by (auto simp: exportCustomTypes_def async_defs split: sum.splits option.splits if_splits)

lemma exportSharedSlices_error_line:
  assumes "(t, Log ERROR m) \<in> set (fst (exportSharedSlices env this))"
  shows "snd (exportSharedSlices env this) = Inr JUndefined
       \<and> last (fst (exportSharedSlices env this)) = (t, Log ERROR m)"
  using assms
  by (auto simp: exportSharedSlices_def async_defs split: sum.splits option.splits if_splits)

lemma documents_catch_error_line:
  assumes "\<forall>t m. (t, Log ERROR m) \<notin> set (fst body)"
    and "(t, Log ERROR m) \<in> set (fst (try_catch body documents_catch))"
  shows "snd (try_catch body documents_catch) = Inr JUndefined
       \<and> last (fst (try_catch body documents_catch)) = (t, Log ERROR m)"
  using assms
  by (cases body; cases "snd body") (auto simp: documents_catch_def async_defs)

text \<open>The part of \<open>exportDocuments\<close> before the writes per type.\<close>

definition documents_front ::
  "env \<Rightarrow> PrismicBackup \<Rightarrow> ((jsval list \<times> (string \<times> jsval list) list) option) async" where
  "documents_front env this =
        and_then (await (dangerouslyGetAll env)) (\<lambda>allDocs.
          if truthy (JArr allDocs) \<and> length allDocs = 0 then
            and_then (log TDocuments WARN NoDocuments) (\<lambda>_. return None)
          else
            and_then (fs_call env TDocuments (EnsureDir (root this))) (\<lambda>_.
            and_then (fs_call env TDocuments
                        (OutputJson (createExportPath (config this) ''documents.json'')
                                    (JArr allDocs))) (\<lambda>_.
            and_then (log TDocuments INFO
                        (DocumentsExported (length allDocs)
                           (createExportPath (config this) ''documents.json''))) (\<lambda>_.
            and_then (await (group_by_type allDocs [])) (\<lambda>types.
            return (Some (allDocs, types)))))))"

lemma exportDocuments_front:
  "exportDocuments env this =
     (case documents_front env this of
        (tr, Inl error) \<Rightarrow> (try_catch (tr, Inl error) documents_catch, [])
      | (tr, Inr None) \<Rightarrow> ((tr, Inr JUndefined), [])
      | (tr, Inr (Some (allDocs, types))) \<Rightarrow>
          (case promise_all (docs_sched env)
                  (map (\<lambda>(type, docs).
                          fs_call env (TDocType type)
                            (OutputJson
                               (path_join (createExportPath (config this) ''documents'')
                                          (type @ ''.json''))
                               (JArr docs)))
                       types)
           of (evs, r, orphans) \<Rightarrow>
             (try_catch
                (and_then (tr @ evs, r) (\<lambda>_.
                 and_then (log TDocuments INFO
                             (DocumentsByType (length types)
                                (createExportPath (config this) ''documents''))) (\<lambda>_.
                 return (JArr allDocs))))
                documents_catch,
              orphans)))"
  unfolding exportDocuments_def documents_front_def by (rule refl)

lemma documents_front_no_error_line:
  "(t, Log ERROR m) \<notin> set (fst (documents_front env this))"
  by (auto simp: documents_front_def async_defs split: sum.splits option.splits if_splits)

lemma type_writes_no_error_line:
  "(t, Log ERROR m)
     \<notin> set (concat (map fst
              (map (\<lambda>(type, docs).
                      fs_call env (TDocType type)
                        (OutputJson
                           (path_join (createExportPath (config this) ''documents'')
                                      (type @ ''.json''))
                           (JArr docs)))
                   types)))"
  by (induction types) (auto simp: fs_call_def)

lemma exportDocuments_error_line:
  assumes "(t, Log ERROR m) \<in> set (fst (fst (exportDocuments env this)))"
  shows "snd (fst (exportDocuments env this)) = Inr JUndefined
       \<and> last (fst (fst (exportDocuments env this))) = (t, Log ERROR m)"
proof -
  obtain tr0 r0 where front: "documents_front env this = (tr0, r0)"
    by (cases "documents_front env this") auto
  from documents_front_no_error_line [of _ _ env this] front
  have tr0: "\<forall>t m. (t, Log ERROR m) \<notin> set tr0" by simp
  show ?thesis
  proof (cases r0)
    case (Inl e)
    with front have eq: "fst (exportDocuments env this) = try_catch (tr0, Inl e) documents_catch"
      by (simp add: exportDocuments_front)
    from documents_catch_error_line [of "(tr0, Inl e)" t m] tr0 assms
    show ?thesis unfolding eq by simp
  next
    case (Inr v)
    show ?thesis
    proof (cases v)
      case None
      with Inr front have "fst (exportDocuments env this) = (tr0, Inr JUndefined)"
        by (simp add: exportDocuments_front)
      with tr0 assms show ?thesis by simp
    next
      case (Some p)
      obtain allDocs types where p: "p = (allDocs, types)" by (cases p)
      let ?tasks = "map (\<lambda>(type, docs).
                          fs_call env (TDocType type)
                            (OutputJson
                               (path_join (createExportPath (config this) ''documents'')
                                          (type @ ''.json''))
                               (JArr docs)))
                       types"
      obtain evs r orphans where pa: "promise_all (docs_sched env) ?tasks = (evs, r, orphans)"
        by (cases "promise_all (docs_sched env) ?tasks") auto
      let ?body = "and_then (tr0 @ evs, r) (\<lambda>_.
                 and_then (log TDocuments INFO
                             (DocumentsByType (length types)
                                (createExportPath (config this) ''documents''))) (\<lambda>_.
                 return (JArr allDocs)))"
      from Some Inr p front pa
      have eq: "fst (exportDocuments env this) = try_catch ?body documents_catch"
        by (simp add: exportDocuments_front)
      from promise_all_events [of "docs_sched env" ?tasks] pa
      have "set evs \<subseteq> set (concat (map fst ?tasks))" by simp
      with type_writes_no_error_line [of _ _ env this types]
      have evs: "\<forall>t m. (t, Log ERROR m) \<notin> set evs" by blast
      have "\<forall>t m. (t, Log ERROR m) \<notin> set (fst ?body)"
        using tr0 evs by (auto simp: async_defs split: sum.splits)
      from documents_catch_error_line [OF this, of t m] assms
      show ?thesis unfolding eq by simp
    qed
  qed
qed

lemma exportAssetsList_error_line:
  assumes "exportAssetsList fuel env this = Some listed"
    and "(t, Log ERROR m) \<in> set (fst listed)"
  shows "snd listed = Inr None \<and> last (fst listed) = (t, Log ERROR m)"
proof -
  from assms(1) obtain l where l: "list_loop fuel env (config this) 0 [(''limit'', ''1000'')] JNull [] = Some l"
    by (auto simp: exportAssetsList_def split: option.splits)
  obtain tr r where lr: "l = (tr, r)" by (cases l)
  have noerr: "(t', Log ERROR m') \<notin> set tr" for t' m'
  proof -
    have "\<And>tr r n params cursor items. list_loop fuel env (config this) n params cursor items = Some (tr, r)
            \<Longrightarrow> (t', Log ERROR m') \<notin> set tr"
    proof (induction fuel)
      case 0
      then show ?case by simp
    next
      case (Suc fuel)
      from Suc.prems show ?case
        by (auto simp: Let_def list_page_def async_defs
                 split: sum.splits option.splits if_splits prod.splits dest: Suc.IH)
    qed
    with l lr show ?thesis by blast
  qed
  show ?thesis
  proof (cases r)
    case (Inl e)
    from exportAssetsList_failed [of fuel env this tr e] l lr Inl assms noerr
    show ?thesis by auto
  next
    case (Inr items)
    with l lr assms noerr show ?thesis
      by (auto simp: exportAssetsList_def async_defs split: option.splits)
  qed
qed

lemma download_guard_settles: "settled (download_guard this body) = Inr ()"
  by (cases body rule: prod_cases3) (auto simp: download_guard_def split: sum.splits)

lemma downloadAssets_settles:
  "downloadAssets fuel env this a = Some d \<Longrightarrow> settled d = Inr ()"
  by (auto simp: downloadAssets_def download_guard_settles split: option.splits prod.splits)

lemma downloadAssets_returns:
  "exportAssetsList fuel env this = Some listed \<Longrightarrow> \<exists>d. downloadAssets fuel env this a = Some d"
  by (cases listed) (simp add: downloadAssets_def split: option.splits)

lemma fulfils_ignore_value: "\<exists>v. snd t = Inr v \<Longrightarrow> fulfils (ignore_value t)"
  by (auto simp: fulfils_def ignore_value_def)

lemma run_tasks_fulfil:
  assumes "settled d = Inr ()"
  shows "\<forall>t \<in> set (run_tasks env this d). fulfils t"
  using assms
  by (simp add: run_tasks_def fulfils_ignore_value exportRepositoryDetails_settles
                exportDocuments_settles exportTags_settles exportCustomTypes_settles
                exportSharedSlices_settles)
     (simp add: fulfils_def)

lemma run_completes:
  assumes "downloadAssets fuel env this None = Some d"
  shows "\<exists>out evs. run fuel env this = Some out \<and> settled out = Inr ()
           \<and> effects out = (TRun, Log INFO BackupStarted) # evs @ [(TRun, Log INFO BackupCompleted)]
           \<and> mset evs = mset (concat (map fst (run_tasks env this d)))
           \<and> detached out = snd (exportDocuments env this) @ detached d"
proof -
  from assms have "settled d = Inr ()" by (rule downloadAssets_settles)
  then have "\<forall>t \<in> set (run_tasks env this d). fulfils t" by (rule run_tasks_fulfil)
  from promise_all_fulfils [OF this, of "run_sched env"]
  obtain evs where pa: "promise_all (run_sched env) (run_tasks env this d) = (evs, Inr (), [])"
    and ms: "mset evs = mset (concat (map fst (run_tasks env this d)))"
    by blast
  let ?tr = "(TRun, Log INFO BackupStarted) # evs @ [(TRun, Log INFO BackupCompleted)]"
  let ?out = "\<lparr>this_after = after this ?tr, effects = ?tr, settled = Inr (),
               detached = snd (exportDocuments env this) @ detached d\<rparr>"
  from assms pa have "run fuel env this = Some ?out"
    by (simp add: run_def async_defs)
  with ms show ?thesis
    by (intro exI [of _ ?out] exI [of _ evs]) simp
qed

subsection \<open>A listing that never ends\<close>

text \<open>A world like \<open>env_ok\<close> whose asset API answers every page request with status 200,
  no items and the cursor \<open>"next"\<close>.\<close>

definition env_endless :: env where
  "env_endless = env_ok\<lparr>fetchAssetsPage := (\<lambda>n. Inr (page_response [] (JStr ''next'')))\<rparr>"

lemma env_endless_serves: "serves env_endless n [] (JStr ''next'')"
  by (simp add: serves_def env_endless_def page_response_def)

lemma list_loop_endless: "list_loop fuel env_endless c n params cursor items = None"
proof (induction fuel arbitrary: n params cursor items)
  case 0
  show ?case by simp
next
  case (Suc fuel)
  show ?case
    by (simp add: Let_def list_page_serves [OF env_endless_serves] Suc)
qed

lemma run_endless: "run fuel env_endless this = None"
  by (simp add: run_def downloadAssets_def exportAssetsList_def list_loop_endless)

text \<open>
  Claim C8, where it fails. The asset API answers every page request with status 200, an
  empty page and the cursor \<open>"next"\<close>; every other call succeeds. No operation fails, yet
  the \<open>while (true)\<close> loop of \<open>exportAssetsList\<close> asks for a next page without end: however
  many requests are allowed, \<open>run\<close> has not completed, so the line with the duration is
  never logged.
\<close>

theorem C8_endless_listing_counterexample:
  "(\<forall>n. serves env_endless n [] (JStr ''next''))
   \<and> (\<forall>fuel. run fuel env_endless (new_PrismicBackup cfg0) = None)"
  by (simp add: env_endless_serves run_endless)

subsection \<open>The try blocks\<close>

text \<open>
  A block run inside a \<open>try\<close> whose handler logs the message of the error at level error
  and returns \<open>u\<close>: when the block throws or a promise it awaits rejects, what it did so
  far is followed by that one line and the result is \<open>u\<close>; otherwise nothing is added.
\<close>

definition contained :: "'a async \<Rightarrow> tid \<Rightarrow> (string \<Rightarrow> msg) \<Rightarrow> 'a \<Rightarrow> 'a async" where
  "contained body t m u =
     (case body of
        (tr, Inl e) \<Rightarrow> (tr @ [(t, Log ERROR (m (message e)))], Inr u)
      | (tr, Inr v) \<Rightarrow> (tr, Inr v))"

text \<open>The \<open>try\<close> block of each exporter, as in its definition above.\<close>

definition exportRepositoryDetails_try :: "env \<Rightarrow> PrismicBackup \<Rightarrow> jsval async" where
  "exportRepositoryDetails_try env this =
     and_then (await (getRepository env)) (\<lambda>repo.
       if \<not> truthy repo then
         and_then (log TRepository WARN NoRepository) (\<lambda>_. return JUndefined)
       else
         and_then (fs_call env TRepository (EnsureDir (root this))) (\<lambda>_.
         and_then (fs_call env TRepository
                     (OutputJson (createExportPath (config this) ''repository.json'') repo)) (\<lambda>_.
         and_then (log TRepository INFO
                     (RepositoryExported (createExportPath (config this) ''repository.json'')))
           (\<lambda>_.
         return repo))))"

definition exportDocuments_try :: "env \<Rightarrow> PrismicBackup \<Rightarrow> jsval async \<times> unit async list" where
  "exportDocuments_try env this =
     (case documents_front env this of
        (tr, Inl error) \<Rightarrow> ((tr, Inl error), [])
      | (tr, Inr None) \<Rightarrow> ((tr, Inr JUndefined), [])
      | (tr, Inr (Some (allDocs, types))) \<Rightarrow>
          (case promise_all (docs_sched env)
                  (map (\<lambda>(type, docs).
                          fs_call env (TDocType type)
                            (OutputJson
                               (path_join (createExportPath (config this) ''documents'')
                                          (type @ ''.json''))
                               (JArr docs)))
                       types)
           of (evs, r, orphans) \<Rightarrow>
             (and_then (tr @ evs, r) (\<lambda>_.
              and_then (log TDocuments INFO
                          (DocumentsByType (length types)
                             (createExportPath (config this) ''documents''))) (\<lambda>_.
              return (JArr allDocs))),
              orphans)))"

definition exportTags_try :: "env \<Rightarrow> PrismicBackup \<Rightarrow> jsval async" where
  "exportTags_try env this =
     and_then (await (getTags env)) (\<lambda>tags.
       if truthy (JArr (map JStr tags)) \<and> length tags < 1 then
         and_then (log TTags WARN NoTags) (\<lambda>_. return JUndefined)
       else
         and_then (fs_call env TTags (EnsureDir (root this))) (\<lambda>_.
         and_then (fs_call env TTags
                     (WriteFile (createExportPath (config this) ''tags.txt'')
                                (join_with [CHR 0x0A] tags))) (\<lambda>_.
         and_then (log TTags INFO
                     (TagsExported (length tags)
                        (createExportPath (config this) ''tags.txt''))) (\<lambda>_.
         return (JArr (map JStr tags))))))"

definition exportCustomTypes_try :: "env \<Rightarrow> PrismicBackup \<Rightarrow> jsval async" where
  "exportCustomTypes_try env this =
     and_then ([(TCustomTypes, AuthFetch CUSTOM_TYPES_API [] (auth_headers (config this)))],
               fetchCustomTypes env) (\<lambda>response.
     and_then (if \<not> ok response then throw (api_returned response) else return ()) (\<lambda>_.
     and_then (await (json response)) (\<lambda>customTypes.
     and_then (fs_call env TCustomTypes (EnsureDir (root this))) (\<lambda>_.
     and_then (fs_call env TCustomTypes
                 (OutputJson (createExportPath (config this) ''custom-types.json'')
                             customTypes)) (\<lambda>_.
     and_then (await (get_prop customTypes ''length'')) (\<lambda>n.
     and_then (log TCustomTypes INFO
                 (CustomTypesExported n
                    (createExportPath (config this) ''custom-types.json''))) (\<lambda>_.
     return customTypes)))))))"

definition exportSharedSlices_try :: "env \<Rightarrow> PrismicBackup \<Rightarrow> jsval async" where
  "exportSharedSlices_try env this =
     and_then ([(TSharedSlices, AuthFetch SLICES_API [] (auth_headers (config this)))],
               fetchSlices env) (\<lambda>response.
     and_then (if \<not> ok response then throw (api_returned response) else return ()) (\<lambda>_.
     and_then (await (json response)) (\<lambda>sharedSlices.
       if truthy sharedSlices \<and> get_prop sharedSlices ''length'' = Inr (JNum 0) then
         and_then (log TSharedSlices WARN NoSharedSlices) (\<lambda>_. return JUndefined)
       else
         and_then (fs_call env TSharedSlices (EnsureDir (root this))) (\<lambda>_.
         and_then (fs_call env TSharedSlices
                     (OutputJson (createExportPath (config this) ''shared-slices.json'')
                                 sharedSlices)) (\<lambda>_.
         and_then (await (get_prop sharedSlices ''length'')) (\<lambda>n.
         and_then (log TSharedSlices INFO
                     (SharedSlicesExported n
                        (createExportPath (config this) ''shared-slices.json''))) (\<lambda>_.
         return sharedSlices)))))))"

definition exportAssetsList_try ::
  "nat \<Rightarrow> env \<Rightarrow> PrismicBackup \<Rightarrow> (jsval list option) async option" where
  "exportAssetsList_try fuel env this =
     (case list_loop fuel env (config this) 0 [(''limit'', ''1000'')] JNull [] of
        None \<Rightarrow> None
      | Some listed \<Rightarrow>
          Some (and_then listed (\<lambda>items.
                and_then (fs_call env TAssetsList (EnsureDir (root this))) (\<lambda>_.
                and_then (fs_call env TAssetsList
                            (OutputJson (createExportPath (config this) ''assets.json'')
                                        (JArr items)))
                  (\<lambda>_.
                and_then (log TAssetsList INFO
                            (AssetsExported (length items)
                               (createExportPath (config this) ''assets.json''))) (\<lambda>_.
                return (Some items)))))))"

text \<open>The \<open>try\<close> block of \<open>downloadAssets\<close>, with the downloads it leaves under way.\<close>

definition downloadAssets_try ::
  "nat \<Rightarrow> env \<Rightarrow> PrismicBackup \<Rightarrow> jsval list option
     \<Rightarrow> (trace \<times> (js_error + unit) \<times> unit async list) option" where
  "downloadAssets_try fuel env this assets =
     (case assets of
        Some given \<Rightarrow> Some (download_all env this given)
      | None \<Rightarrow>
          (case exportAssetsList fuel env this of
             None \<Rightarrow> None
           | Some (tr, listed) \<Rightarrow>
               Some (case listed of
                    Inl e \<Rightarrow> (fst (log TDownloadAssets INFO NoAssetsProvided) @ tr, Inl e, [])
                  | Inr None \<Rightarrow> (fst (log TDownloadAssets INFO NoAssetsProvided) @ tr, Inr (), [])
                  | Inr (Some fetched) \<Rightarrow>
                      (case download_all env this fetched of
                         (tr', r, orphans) \<Rightarrow>
                           (fst (log TDownloadAssets INFO NoAssetsProvided) @ tr @ tr', r,
                            orphans)))))"

lemma try_catch_contained:
  "try_catch body (\<lambda>error. and_then (log t ERROR (m (message error))) (\<lambda>_. return u))
     = contained body t m u"
  by (cases body; cases "snd body") (simp_all add: contained_def async_defs)

lemma contained_settles: "\<exists>v. snd (contained body t m u) = Inr v"
  by (cases body; cases "snd body") (simp_all add: contained_def)

lemma exportRepositoryDetails_contained:
  "exportRepositoryDetails env this
     = contained (exportRepositoryDetails_try env this) TRepository RepositoryFailed JUndefined"
  unfolding exportRepositoryDetails_def exportRepositoryDetails_try_def
  by (rule try_catch_contained [of _ TRepository RepositoryFailed JUndefined])

lemma exportTags_contained:
  "exportTags env this = contained (exportTags_try env this) TTags TagsFailed JUndefined"
  unfolding exportTags_def exportTags_try_def
  by (rule try_catch_contained [of _ TTags TagsFailed JUndefined])

lemma exportCustomTypes_contained:
  "exportCustomTypes env this
     = contained (exportCustomTypes_try env this) TCustomTypes CustomTypesFailed JUndefined"
  unfolding exportCustomTypes_def exportCustomTypes_try_def
  by (rule try_catch_contained [of _ TCustomTypes CustomTypesFailed JUndefined])

lemma exportSharedSlices_contained:
  "exportSharedSlices env this
     = contained (exportSharedSlices_try env this) TSharedSlices SharedSlicesFailed JUndefined"
  unfolding exportSharedSlices_def exportSharedSlices_try_def
  by (rule try_catch_contained [of _ TSharedSlices SharedSlicesFailed JUndefined])

lemma documents_catch_contained:
  "try_catch body documents_catch = contained body TDocuments DocumentsFailed JUndefined"
  using try_catch_contained [of body TDocuments DocumentsFailed JUndefined]
  by (simp add: documents_catch_def [abs_def])

lemma exportDocuments_contained:
  "exportDocuments env this
     = (contained (fst (exportDocuments_try env this)) TDocuments DocumentsFailed JUndefined,
        snd (exportDocuments_try env this))"
  unfolding exportDocuments_front exportDocuments_try_def
  by (simp add: documents_catch_contained contained_def split: prod.splits sum.splits option.splits)

lemma exportAssetsList_contained:
  "exportAssetsList fuel env this
     = map_option (\<lambda>body. contained body TAssetsList AssetsListFailed None)
         (exportAssetsList_try fuel env this)"
  unfolding exportAssetsList_def exportAssetsList_try_def
  by (simp add: try_catch_contained [of _ TAssetsList AssetsListFailed "None :: jsval list option"]
           split: option.splits)

lemma downloadAssets_guarded:
  "downloadAssets fuel env this assets
     = map_option (download_guard this) (downloadAssets_try fuel env this assets)"
  by (simp add: downloadAssets_def downloadAssets_try_def split: option.splits prod.splits)

lemma download_guard_contained:
  "effects (download_guard this body)
     = (case fst (snd body) of
          Inl e \<Rightarrow> fst body @ [(TDownloadAssets, Log ERROR (AssetsDownloadFailed (message e)))]
        | Inr _ \<Rightarrow> fst body)"
  "detached (download_guard this body) = snd (snd body)"
  by (cases body rule: prod_cases3; cases "fst (snd body)";
      simp add: download_guard_def log_def)+

lemma downloadAsset_contained:
  assumes "canonical_url asset = Inr s" and "hashed_filename s = Inr n"
  shows "\<exists>name. get_prop asset ''filename'' = Inr name
           \<and> snd (downloadAsset env i asset dest)
               = (case download_try env i asset n dest of
                    (tr, Inl e) \<Rightarrow>
                      (tr @ [(TDownload i, Push asset),
                             (TDownload i, Log ERROR (DownloadFailed name (message e)))], Inr ())
                  | (tr, Inr v) \<Rightarrow> (tr, Inr v))"
proof -
  from canonical_url_filename [OF assms(1)] obtain name where
    name: "get_prop asset ''filename'' = Inr name" ..
  have "snd (downloadAsset env i asset dest)
               = (case download_try env i asset n dest of
                    (tr, Inl e) \<Rightarrow>
                      (tr @ [(TDownload i, Push asset),
                             (TDownload i, Log ERROR (DownloadFailed name (message e)))], Inr ())
                  | (tr, Inr v) \<Rightarrow> (tr, Inr v))"
    using name downloadAsset_started [OF assms, of env i dest]
    by (cases "download_try env i asset n dest"; cases "snd (download_try env i asset n dest)")
       (simp_all add: download_catch_def async_defs)
  with name show ?thesis by blast
qed

subsection \<open>A world of failures\<close>

text \<open>
  A world in which the repository, documents, tags, custom types and slices calls all
  reject, while the asset API lists two descriptors, the first without a \<open>url\<close>, and
  everything else succeeds.
\<close>

definition env_slip :: env where
  "env_slip = env_ok\<lparr>getRepository := Inl (Error ''down''), dangerouslyGetAll := Inl (Error ''down''),
                     getTags := Inl (Error ''down''), fetchCustomTypes := Inl (Error ''down''),
                     fetchSlices := Inl (Error ''down''),
                     fetchAssetsPage := (\<lambda>n. Inr (page_response [asset_no_url, asset_a] JNull))\<rparr>"

definition slip_listing :: trace where
  "slip_listing =
     [(TAssetsList, AuthFetch ASSETS_API [(''limit'', ''1000'')]
         [(''repository'', ''repo''), (''authorization'', ''Bearer write'')]),
      (TAssetsList, Fs (EnsureDir [''./'', ''repo'', []]) None),
      (TAssetsList,
       Fs (OutputJson [''./'', ''repo'', ''assets.json''] (JArr [asset_no_url, asset_a])) None),
      (TAssetsList, Log INFO (AssetsExported 2 [''./'', ''repo'', ''assets.json'']))]"

definition slip_detached :: "unit async list" where
  "slip_detached =
     [([(TDownload 1, Fs (EnsureDir [''./'', ''repo'', ''assets'']) None),
        (TDownload 1, Fs (WriteFile [''./'', ''repo'', ''assets'', ''a.png''] ''bytes'') None),
        (TDownload 1, Log INFO (Downloaded (JStr ''A.png'') [''./'', ''repo'', ''assets'']))],
       Inr ())]"

lemma env_slip_tries:
  "exportRepositoryDetails_try env_slip (new_PrismicBackup cfg0) = ([], Inl (Error ''down''))"
  "fst (exportDocuments_try env_slip (new_PrismicBackup cfg0)) = ([], Inl (Error ''down''))"
  "exportTags_try env_slip (new_PrismicBackup cfg0) = ([], Inl (Error ''down''))"
  "exportCustomTypes_try env_slip (new_PrismicBackup cfg0)
     = ([(TCustomTypes, AuthFetch CUSTOM_TYPES_API []
           [(''repository'', ''repo''), (''authorization'', ''Bearer write'')])],
        Inl (Error ''down''))"
  "exportSharedSlices_try env_slip (new_PrismicBackup cfg0)
     = ([(TSharedSlices, AuthFetch SLICES_API []
           [(''repository'', ''repo''), (''authorization'', ''Bearer write'')])],
        Inl (Error ''down''))"
  by (simp_all add: exportRepositoryDetails_try_def exportDocuments_try_def documents_front_def
                    exportTags_try_def exportCustomTypes_try_def exportSharedSlices_try_def
                    async_defs env_slip_def env_ok_def cfg0_def new_PrismicBackup_def
                    auth_headers_def)

lemma env_slip_listing:
  "exportAssetsList 1 env_slip (new_PrismicBackup cfg0)
     = Some (slip_listing, Inr (Some [asset_no_url, asset_a]))"
  by (simp add: exportAssetsList_def list_page_def async_defs env_slip_def page_response_def
                env_ok_def cfg0_def new_PrismicBackup_def createExportPath_def auth_headers_def
                slip_listing_def)

lemma env_slip_downloads:
  "download_all env_slip (new_PrismicBackup cfg0) [asset_no_url, asset_a]
     = ([(TDownload 1, Fetch ''https://cdn.example/img/a.png'')],
        Inl (TypeError ''Cannot read properties of undefined (reading split)''),
        slip_detached)"
  by (simp add: env_slip_def asset_no_url_def slip_detached_def eval_defs download_loop.simps
                promise_all.simps)

lemma env_slip_try:
  "downloadAssets_try 1 env_slip (new_PrismicBackup cfg0) None
     = Some ((TDownloadAssets, Log INFO NoAssetsProvided) # slip_listing
               @ [(TDownload 1, Fetch ''https://cdn.example/img/a.png'')],
             Inl (TypeError ''Cannot read properties of undefined (reading split)''),
             slip_detached)"
  using env_slip_listing env_slip_downloads by (simp add: downloadAssets_try_def log_def)

lemma env_slip_orphans: "snd (exportDocuments env_slip (new_PrismicBackup cfg0)) = []"
  by (simp add: exportDocuments_front documents_front_def async_defs env_slip_def env_ok_def)

text \<open>
  Claim C8, amended: whenever the asset listing ends (within \<open>fuel\<close> requests), whatever
  the remote calls and the filesystem answer and however the scheduler interleaves the
  tasks.

  \<^item> Each of the five exporters and the listing is its \<open>try\<close> block, contained: an error
    raised anywhere in the block is followed by one line at level error that carries its
    message, and the result is \<open>undefined\<close>; a block that raises none is left as it is.
    So none of them rejects, and a line at level error appears in their effects only as
    the last one, with the result \<open>undefined\<close>.
  \<^item> A download that was started catches what its own \<open>try\<close> block raises: it records the
    descriptor, logs the message at level error and fulfils.
  \<^item> \<open>downloadAssets\<close> fulfils; if its block is rejected (by the listing it awaits or by a
    chunk), its effects end with one line at level error that carries the message.
  \<^item> \<open>run\<close> completes: its promise fulfils, and the effects of \<open>run\<close> and of its six tasks
    are the start line, an interleaving of the six tasks' effects, and then the line with
    the duration. The writes per type and the downloads that a rejected \<open>Promise.all\<close>
    left under way are the detached tasks of the outcome; what they still do is not
    ordered against the line with the duration.
\<close>

theorem C8_run_completes_when_listing_ends:
  assumes "exportAssetsList fuel env this = Some listed"
  shows "exportRepositoryDetails env this
           = contained (exportRepositoryDetails_try env this) TRepository RepositoryFailed JUndefined
       \<and> exportDocuments env this
           = (contained (fst (exportDocuments_try env this)) TDocuments DocumentsFailed JUndefined,
              snd (exportDocuments_try env this))
       \<and> exportTags env this = contained (exportTags_try env this) TTags TagsFailed JUndefined
       \<and> exportCustomTypes env this
           = contained (exportCustomTypes_try env this) TCustomTypes CustomTypesFailed JUndefined
       \<and> exportSharedSlices env this
           = contained (exportSharedSlices_try env this) TSharedSlices SharedSlicesFailed JUndefined
       \<and> (\<exists>body. exportAssetsList_try fuel env this = Some body
             \<and> listed = contained body TAssetsList AssetsListFailed None)
       \<and> (\<exists>v. snd (exportRepositoryDetails env this) = Inr v)
       \<and> (\<exists>v. snd (fst (exportDocuments env this)) = Inr v)
       \<and> (\<exists>v. snd (exportTags env this) = Inr v)
       \<and> (\<exists>v. snd (exportCustomTypes env this) = Inr v)
       \<and> (\<exists>v. snd (exportSharedSlices env this) = Inr v)
       \<and> (\<exists>v. snd listed = Inr v)
       \<and> (\<forall>t m. (t, Log ERROR m) \<in> set (fst (exportRepositoryDetails env this)) \<longrightarrow>
             snd (exportRepositoryDetails env this) = Inr JUndefined
             \<and> last (fst (exportRepositoryDetails env this)) = (t, Log ERROR m))
       \<and> (\<forall>t m. (t, Log ERROR m) \<in> set (fst (fst (exportDocuments env this))) \<longrightarrow>
             snd (fst (exportDocuments env this)) = Inr JUndefined
             \<and> last (fst (fst (exportDocuments env this))) = (t, Log ERROR m))
       \<and> (\<forall>t m. (t, Log ERROR m) \<in> set (fst (exportTags env this)) \<longrightarrow>
             snd (exportTags env this) = Inr JUndefined
             \<and> last (fst (exportTags env this)) = (t, Log ERROR m))
       \<and> (\<forall>t m. (t, Log ERROR m) \<in> set (fst (exportCustomTypes env this)) \<longrightarrow>
             snd (exportCustomTypes env this) = Inr JUndefined
             \<and> last (fst (exportCustomTypes env this)) = (t, Log ERROR m))
       \<and> (\<forall>t m. (t, Log ERROR m) \<in> set (fst (exportSharedSlices env this)) \<longrightarrow>
             snd (exportSharedSlices env this) = Inr JUndefined
             \<and> last (fst (exportSharedSlices env this)) = (t, Log ERROR m))
       \<and> (\<forall>t m. (t, Log ERROR m) \<in> set (fst listed) \<longrightarrow>
             snd listed = Inr None \<and> last (fst listed) = (t, Log ERROR m))
       \<and> (\<forall>i asset dest s n. canonical_url asset = Inr s \<and> hashed_filename s = Inr n \<longrightarrow>
             (\<exists>name. get_prop asset ''filename'' = Inr name
                \<and> snd (downloadAsset env i asset dest)
                    = (case download_try env i asset n dest of
                         (tr, Inl e) \<Rightarrow>
                           (tr @ [(TDownload i, Push asset),
                                  (TDownload i, Log ERROR (DownloadFailed name (message e)))],
                            Inr ())
                       | (tr, Inr v) \<Rightarrow> (tr, Inr v))))
       \<and> (\<exists>body d out evs.
             downloadAssets_try fuel env this None = Some body
             \<and> downloadAssets fuel env this None = Some d
             \<and> settled d = Inr ()
             \<and> effects d
                 = (case fst (snd body) of
                      Inl e \<Rightarrow>
                        fst body
                          @ [(TDownloadAssets, Log ERROR (AssetsDownloadFailed (message e)))]
                    | Inr _ \<Rightarrow> fst body)
             \<and> detached d = snd (snd body)
             \<and> run fuel env this = Some out \<and> settled out = Inr ()
             \<and> effects out
                 = (TRun, Log INFO BackupStarted) # evs @ [(TRun, Log INFO BackupCompleted)]
             \<and> mset evs = mset (concat (map fst (run_tasks env this d)))
             \<and> detached out = snd (exportDocuments env this) @ detached d)"
proof -
  from assms obtain d where d: "downloadAssets fuel env this None = Some d"
    using downloadAssets_returns by blast
  then have sd: "settled d = Inr ()" by (rule downloadAssets_settles)
  from d obtain body where body: "downloadAssets_try fuel env this None = Some body"
    and dg: "d = download_guard this body"
    by (auto simp: downloadAssets_guarded)
  have ed: "effects d
                 = (case fst (snd body) of
                      Inl e \<Rightarrow>
                        fst body
                          @ [(TDownloadAssets, Log ERROR (AssetsDownloadFailed (message e)))]
                    | Inr _ \<Rightarrow> fst body)"
    unfolding dg by (rule download_guard_contained)
  have dd: "detached d = snd (snd body)"
    unfolding dg by (rule download_guard_contained)
  from run_completes [OF d] obtain out evs where
    "run fuel env this = Some out" "settled out = Inr ()"
    "effects out = (TRun, Log INFO BackupStarted) # evs @ [(TRun, Log INFO BackupCompleted)]"
    "mset evs = mset (concat (map fst (run_tasks env this d)))"
    "detached out = snd (exportDocuments env this) @ detached d"
    by blast
  with body d sd ed dd have run: "\<exists>body d out evs.
             downloadAssets_try fuel env this None = Some body
             \<and> downloadAssets fuel env this None = Some d
             \<and> settled d = Inr ()
             \<and> effects d
                 = (case fst (snd body) of
                      Inl e \<Rightarrow>
                        fst body
                          @ [(TDownloadAssets, Log ERROR (AssetsDownloadFailed (message e)))]
                    | Inr _ \<Rightarrow> fst body)
             \<and> detached d = snd (snd body)
             \<and> run fuel env this = Some out \<and> settled out = Inr ()
             \<and> effects out
                 = (TRun, Log INFO BackupStarted) # evs @ [(TRun, Log INFO BackupCompleted)]
             \<and> mset evs = mset (concat (map fst (run_tasks env this d)))
             \<and> detached out = snd (exportDocuments env this) @ detached d"
    by blast
  from assms have l: "\<exists>body. exportAssetsList_try fuel env this = Some body
             \<and> listed = contained body TAssetsList AssetsListFailed None"
    by (auto simp: exportAssetsList_contained)
  have e1: "\<forall>t m. (t, Log ERROR m) \<in> set (fst (exportRepositoryDetails env this)) \<longrightarrow>
             snd (exportRepositoryDetails env this) = Inr JUndefined
             \<and> last (fst (exportRepositoryDetails env this)) = (t, Log ERROR m)"
    using exportRepositoryDetails_error_line by blast
  have e2: "\<forall>t m. (t, Log ERROR m) \<in> set (fst (fst (exportDocuments env this))) \<longrightarrow>
             snd (fst (exportDocuments env this)) = Inr JUndefined
             \<and> last (fst (fst (exportDocuments env this))) = (t, Log ERROR m)"
    using exportDocuments_error_line by blast
  have e3: "\<forall>t m. (t, Log ERROR m) \<in> set (fst (exportTags env this)) \<longrightarrow>
             snd (exportTags env this) = Inr JUndefined
             \<and> last (fst (exportTags env this)) = (t, Log ERROR m)"
    using exportTags_error_line by blast
  have e4: "\<forall>t m. (t, Log ERROR m) \<in> set (fst (exportCustomTypes env this)) \<longrightarrow>
             snd (exportCustomTypes env this) = Inr JUndefined
             \<and> last (fst (exportCustomTypes env this)) = (t, Log ERROR m)"
    using exportCustomTypes_error_line by blast
  have e5: "\<forall>t m. (t, Log ERROR m) \<in> set (fst (exportSharedSlices env this)) \<longrightarrow>
             snd (exportSharedSlices env this) = Inr JUndefined
             \<and> last (fst (exportSharedSlices env this)) = (t, Log ERROR m)"
    using exportSharedSlices_error_line by blast
  have e6: "\<forall>t m. (t, Log ERROR m) \<in> set (fst listed) \<longrightarrow>
             snd listed = Inr None \<and> last (fst listed) = (t, Log ERROR m)"
    using exportAssetsList_error_line [OF assms] by blast
  have da: "\<forall>i asset dest s n. canonical_url asset = Inr s \<and> hashed_filename s = Inr n \<longrightarrow>
             (\<exists>name. get_prop asset ''filename'' = Inr name
                \<and> snd (downloadAsset env i asset dest)
                    = (case download_try env i asset n dest of
                         (tr, Inl e) \<Rightarrow>
                           (tr @ [(TDownload i, Push asset),
                                  (TDownload i, Log ERROR (DownloadFailed name (message e)))],
                            Inr ())
                       | (tr, Inr v) \<Rightarrow> (tr, Inr v)))"
    using downloadAsset_contained by blast
  show ?thesis
    by (intro conjI exportRepositoryDetails_contained exportDocuments_contained
              exportTags_contained exportCustomTypes_contained exportSharedSlices_contained l
              exportRepositoryDetails_settles exportDocuments_settles exportTags_settles
              exportCustomTypes_settles exportSharedSlices_settles
              exportAssetsList_settles [OF assms] e1 e2 e3 e4 e5 e6 da run)
qed

theorem C8_run_completes_when_listing_ends_witness:
  "exportAssetsList 1 env_slip (new_PrismicBackup cfg0)
     = Some (slip_listing, Inr (Some [asset_no_url, asset_a]))
   \<and> exportRepositoryDetails env_slip (new_PrismicBackup cfg0)
       = ([(TRepository, Log ERROR (RepositoryFailed ''down''))], Inr JUndefined)
   \<and> fst (exportDocuments env_slip (new_PrismicBackup cfg0))
       = ([(TDocuments, Log ERROR (DocumentsFailed ''down''))], Inr JUndefined)
   \<and> exportTags env_slip (new_PrismicBackup cfg0)
       = ([(TTags, Log ERROR (TagsFailed ''down''))], Inr JUndefined)
   \<and> exportCustomTypes env_slip (new_PrismicBackup cfg0)
       = ([(TCustomTypes, AuthFetch CUSTOM_TYPES_API []
             [(''repository'', ''repo''), (''authorization'', ''Bearer write'')]),
           (TCustomTypes, Log ERROR (CustomTypesFailed ''down''))], Inr JUndefined)
   \<and> exportSharedSlices env_slip (new_PrismicBackup cfg0)
       = ([(TSharedSlices, AuthFetch SLICES_API []
             [(''repository'', ''repo''), (''authorization'', ''Bearer write'')]),
           (TSharedSlices, Log ERROR (SharedSlicesFailed ''down''))], Inr JUndefined)
   \<and> (\<exists>d out evs.
         downloadAssets 1 env_slip (new_PrismicBackup cfg0) None = Some d
         \<and> settled d = Inr ()
         \<and> effects d
             = (TDownloadAssets, Log INFO NoAssetsProvided) # slip_listing
                 @ [(TDownload 1, Fetch ''https://cdn.example/img/a.png''),
                    (TDownloadAssets,
                     Log ERROR (AssetsDownloadFailed
                                  ''Cannot read properties of undefined (reading split)''))]
         \<and> detached d = slip_detached
         \<and> run 1 env_slip (new_PrismicBackup cfg0) = Some out \<and> settled out = Inr ()
         \<and> effects out
             = (TRun, Log INFO BackupStarted) # evs @ [(TRun, Log INFO BackupCompleted)]
         \<and> mset evs = mset (concat (map fst (run_tasks env_slip (new_PrismicBackup cfg0) d)))
         \<and> detached out = slip_detached)"
proof -
  let ?obj = "new_PrismicBackup cfg0"
  note inst = C8_run_completes_when_listing_ends [OF env_slip_listing]
  note c1 = inst [THEN conjunct1]
  note r1 = inst [THEN conjunct2]
  note c2 = r1 [THEN conjunct1]
  note r2 = r1 [THEN conjunct2]
  note c3 = r2 [THEN conjunct1]
  note r3 = r2 [THEN conjunct2]
  note c4 = r3 [THEN conjunct1]
  note r4 = r3 [THEN conjunct2]
  note c5 = r4 [THEN conjunct1]
  note tail = r4 [THEN conjunct2, THEN conjunct2, THEN conjunct2, THEN conjunct2, THEN conjunct2, THEN conjunct2, THEN conjunct2, THEN conjunct2, THEN conjunct2, THEN conjunct2, THEN conjunct2, THEN conjunct2, THEN conjunct2, THEN conjunct2, THEN conjunct2]
  have x1: "exportRepositoryDetails env_slip ?obj
       = ([(TRepository, Log ERROR (RepositoryFailed ''down''))], Inr JUndefined)"
    unfolding c1 by (simp add: env_slip_tries contained_def)
  have x2: "fst (exportDocuments env_slip ?obj)
       = ([(TDocuments, Log ERROR (DocumentsFailed ''down''))], Inr JUndefined)"
    unfolding c2 by (simp add: env_slip_tries contained_def)
  have x3: "exportTags env_slip ?obj = ([(TTags, Log ERROR (TagsFailed ''down''))], Inr JUndefined)"
    unfolding c3 by (simp add: env_slip_tries contained_def)
  have x4: "exportCustomTypes env_slip ?obj
       = ([(TCustomTypes, AuthFetch CUSTOM_TYPES_API []
             [(''repository'', ''repo''), (''authorization'', ''Bearer write'')]),
           (TCustomTypes, Log ERROR (CustomTypesFailed ''down''))], Inr JUndefined)"
    unfolding c4 by (simp add: env_slip_tries contained_def)
  have x5: "exportSharedSlices env_slip ?obj
       = ([(TSharedSlices, AuthFetch SLICES_API []
             [(''repository'', ''repo''), (''authorization'', ''Bearer write'')]),
           (TSharedSlices, Log ERROR (SharedSlicesFailed ''down''))], Inr JUndefined)"
    unfolding c5 by (simp add: env_slip_tries contained_def)
  from tail obtain body d out evs where
    b: "downloadAssets_try 1 env_slip ?obj None = Some body"
    and d: "downloadAssets 1 env_slip ?obj None = Some d" "settled d = Inr ()"
    and ed: "effects d
                 = (case fst (snd body) of
                      Inl e \<Rightarrow>
                        fst body
                          @ [(TDownloadAssets, Log ERROR (AssetsDownloadFailed (message e)))]
                    | Inr _ \<Rightarrow> fst body)"
    and dd: "detached d = snd (snd body)"
    and out: "run 1 env_slip ?obj = Some out" "settled out = Inr ()"
       "effects out = (TRun, Log INFO BackupStarted) # evs @ [(TRun, Log INFO BackupCompleted)]"
       "mset evs = mset (concat (map fst (run_tasks env_slip ?obj d)))"
       "detached out = snd (exportDocuments env_slip ?obj) @ detached d"
    by blast
  from b have body: "body = ((TDownloadAssets, Log INFO NoAssetsProvided) # slip_listing
               @ [(TDownload 1, Fetch ''https://cdn.example/img/a.png'')],
             Inl (TypeError ''Cannot read properties of undefined (reading split)''),
             slip_detached)"
    using env_slip_try by simp
  have ed': "effects d
             = (TDownloadAssets, Log INFO NoAssetsProvided) # slip_listing
                 @ [(TDownload 1, Fetch ''https://cdn.example/img/a.png''),
                    (TDownloadAssets,
                     Log ERROR (AssetsDownloadFailed
                                  ''Cannot read properties of undefined (reading split)''))]"
    unfolding ed body by simp
  have dd': "detached d = slip_detached"
    unfolding dd body by simp
  have do': "detached out = slip_detached"
    using out(5) dd' by (simp add: env_slip_orphans)
  have "\<exists>d out evs.
         downloadAssets 1 env_slip ?obj None = Some d
         \<and> settled d = Inr ()
         \<and> effects d
             = (TDownloadAssets, Log INFO NoAssetsProvided) # slip_listing
                 @ [(TDownload 1, Fetch ''https://cdn.example/img/a.png''),
                    (TDownloadAssets,
                     Log ERROR (AssetsDownloadFailed
                                  ''Cannot read properties of undefined (reading split)''))]
         \<and> detached d = slip_detached
         \<and> run 1 env_slip ?obj = Some out \<and> settled out = Inr ()
         \<and> effects out
             = (TRun, Log INFO BackupStarted) # evs @ [(TRun, Log INFO BackupCompleted)]
         \<and> mset evs = mset (concat (map fst (run_tasks env_slip ?obj d)))
         \<and> detached out = slip_detached"
    using d ed' dd' out(1-4) do' by blast
  then show ?thesis
    by (intro conjI env_slip_listing x1 x2 x3 x4 x5)
qed

end
